theory Spec2Isabelle
  imports Complex_Main "HOL-Library.Multiset" "HOL-Library.Finite_Map"
begin

section \<open>JavaScript helpers\<close>

text \<open>
  Numbers are modelled as exact reals, \<open>Math.pow(10, x)\<close> as \<open>10 powr x\<close>; the
  double-precision arithmetic of the source is modelled in a section of its own.
  A JavaScript object used as a dictionary from team codes to numbers is a partial map;
  a missing key reads as \<open>undefined\<close>, modelled as \<open>None\<close>.
\<close>

text \<open>
  Exceptions of the source: a read of a property of \<open>undefined\<close> throws a TypeError. A
  recursion that does not come to an end exhausts the call stack and throws a RangeError;
  recursive functions take the number of stack frames they may still use.
\<close>

datatype error = TypeError | RangeError

type_synonym ratings = "string \<Rightarrow> real option"

text \<open>\<open>x || d\<close> on an optional number: \<open>undefined\<close> and \<open>0\<close> are falsy.\<close>

definition js_or :: "real option \<Rightarrow> real \<Rightarrow> real" where
  "js_or x d = (case x of None \<Rightarrow> d | Some v \<Rightarrow> if v = 0 then d else v)"

text \<open>\<open>xs[i]\<close> on an array: out of range reads \<open>undefined\<close>.\<close>

definition js_index :: "'a list \<Rightarrow> nat \<Rightarrow> 'a option" where
  "js_index xs i = (if i < length xs then Some (xs ! i) else None)"

text \<open>
  A property key that is \<open>undefined\<close> is converted to the string \<open>"undefined"\<close>
  before the lookup.
\<close>

definition js_key :: "string option \<Rightarrow> string" where
  "js_key k = (case k of None \<Rightarrow> ''undefined'' | Some s \<Rightarrow> s)"

text \<open>\<open>Math.round\<close>: nearest integer, halves towards plus infinity.\<close>

definition js_round :: "real \<Rightarrow> int" where
  "js_round x = \<lfloor>x + 1 / 2\<rfloor>"

text \<open>
  \<open>Array.prototype.sort(cmp)\<close> is stable; with a comparator \<open>cmp a b\<close> whose sign
  orders the elements, the result is that of a stable insertion sort: an element is put
  before the first element it does not have to follow.
\<close>

fun js_insort :: "('a \<Rightarrow> 'a \<Rightarrow> real) \<Rightarrow> 'a \<Rightarrow> 'a list \<Rightarrow> 'a list" where
  "js_insort cmp x [] = [x]"
| "js_insort cmp x (y # ys) =
     (if cmp x y \<le> 0 then x # y # ys else y # js_insort cmp x ys)"

definition js_sort :: "('a \<Rightarrow> 'a \<Rightarrow> real) \<Rightarrow> 'a list \<Rightarrow> 'a list" where
  "js_sort cmp xs = foldr (js_insort cmp) xs []"

section \<open>Rating model (src/lib/sosCalculator.js)\<close>

definition eloWinProbability :: "real \<Rightarrow> real \<Rightarrow> real" where
  "eloWinProbability rating1 rating2 = 1 / (1 + 10 powr ((rating2 - rating1) / 400))"

record matchProbs =
  winProb :: real
  drawProb :: real
  lossProb :: real

definition getMatchProbabilities :: "real \<Rightarrow> real \<Rightarrow> matchProbs" where
  "getMatchProbabilities teamElo oppElo =
     (let winExpectancy = 1 / (1 + 10 powr ((oppElo - teamElo) / 400));
          eloDiff = \<bar>teamElo - oppElo\<bar>;
          drawProb = max 0.15 (0.27 - eloDiff * 0.0004);
          winProb = winExpectancy * (1 - drawProb);
          lossProb = (1 - winExpectancy) * (1 - drawProb)
      in \<lparr>winProb = winProb, drawProb = drawProb, lossProb = lossProb\<rparr>)"

section \<open>Closed-form playoff resolvers (src/lib/sosCalculator.js)\<close>

record bracket =
  seeded :: string
  unseeded :: "string list"

record path =
  path_teams :: "string list"

text \<open>
  One entry of the \<open>teams\<close> array of a resolver's result. The code of an entry of the
  3-team bracket is \<open>undefined\<close> (\<open>None\<close>) when the bracket lists fewer than two
  unseeded teams.
\<close>

record teamProb =
  tp_code :: "string option"
  tp_elo :: real
  tp_prob :: real

record playoffSim =
  expectedElo :: int
  minElo :: real
  maxElo :: real
  sim_teams :: "teamProb list"

text \<open>The comparator \<open>(a, b) => b.prob - a.prob\<close>.\<close>

definition byProbDesc :: "teamProb \<Rightarrow> teamProb \<Rightarrow> real" where
  "byProbDesc a b = tp_prob b - tp_prob a"

text \<open>The comparator \<open>(a, b) => b.elo - a.elo\<close>.\<close>

definition byEloDesc :: "teamProb \<Rightarrow> teamProb \<Rightarrow> real" where
  "byEloDesc a b = tp_elo b - tp_elo a"

definition simulateBracket :: "bracket \<Rightarrow> ratings \<Rightarrow> playoffSim" where
  "simulateBracket b ratings =
     (let seededCode = seeded b;
          seededElo = js_or (ratings seededCode) 1400;
          unseededCodes = unseeded b;
          team1Elo = js_or (ratings (js_key (js_index unseededCodes 0))) 1400;
          team2Elo = js_or (ratings (js_key (js_index unseededCodes 1))) 1400;
          team1WinProb = eloWinProbability team1Elo team2Elo;
          semifinalWinnerElo = team1WinProb * team1Elo + (1 - team1WinProb) * team2Elo;
          seededWinProb = eloWinProbability seededElo semifinalWinnerElo;
          expectedWinnerElo = seededWinProb * seededElo + (1 - seededWinProb) * semifinalWinnerElo;
          teamProbs =
            [\<lparr>tp_code = Some seededCode, tp_elo = seededElo, tp_prob = seededWinProb\<rparr>,
             \<lparr>tp_code = js_index unseededCodes 0, tp_elo = team1Elo,
              tp_prob = (1 - seededWinProb) * team1WinProb\<rparr>,
             \<lparr>tp_code = js_index unseededCodes 1, tp_elo = team2Elo,
              tp_prob = (1 - seededWinProb) * (1 - team1WinProb)\<rparr>]
      in \<lparr>expectedElo = js_round expectedWinnerElo,
          minElo = min (min seededElo team1Elo) team2Elo,
          maxElo = max (max seededElo team1Elo) team2Elo,
          sim_teams = js_sort byProbDesc teamProbs\<rparr>)"

text \<open>
  \<open>simulateUEFAPath\<close> destructures the first four entries of the sorted team list and
  reads their \<open>elo\<close>; with fewer than four teams an entry is \<open>undefined\<close> and the read
  throws a TypeError. Entries beyond the fourth take part in \<open>minElo\<close> and \<open>maxElo\<close> only.
\<close>

definition simulateUEFAPath :: "path \<Rightarrow> ratings \<Rightarrow> error + playoffSim" where
  "simulateUEFAPath p ratings =
     (let teamElos = map (\<lambda>c. \<lparr>tp_code = Some c, tp_elo = js_or (ratings c) 1400, tp_prob = 0\<rparr>)
                       (path_teams p);
          sorted = js_sort byEloDesc teamElos
      in case sorted of
           t1 # t2 # t3 # t4 # _ \<Rightarrow>
             (let sf1_t1Win = eloWinProbability (tp_elo t1) (tp_elo t4);
                  sf2_t2Win = eloWinProbability (tp_elo t2) (tp_elo t3);
                  t1WinsProb = sf1_t1Win *
                    (sf2_t2Win * eloWinProbability (tp_elo t1) (tp_elo t2) +
                     (1 - sf2_t2Win) * eloWinProbability (tp_elo t1) (tp_elo t3));
                  t4WinsProb = (1 - sf1_t1Win) *
                    (sf2_t2Win * eloWinProbability (tp_elo t4) (tp_elo t2) +
                     (1 - sf2_t2Win) * eloWinProbability (tp_elo t4) (tp_elo t3));
                  t2WinsProb = sf2_t2Win *
                    (sf1_t1Win * eloWinProbability (tp_elo t2) (tp_elo t1) +
                     (1 - sf1_t1Win) * eloWinProbability (tp_elo t2) (tp_elo t4));
                  t3WinsProb = (1 - sf2_t2Win) *
                    (sf1_t1Win * eloWinProbability (tp_elo t3) (tp_elo t1) +
                     (1 - sf1_t1Win) * eloWinProbability (tp_elo t3) (tp_elo t4));
                  teamProbs = [t1\<lparr>tp_prob := t1WinsProb\<rparr>, t2\<lparr>tp_prob := t2WinsProb\<rparr>,
                               t3\<lparr>tp_prob := t3WinsProb\<rparr>, t4\<lparr>tp_prob := t4WinsProb\<rparr>];
                  expectedElo = foldl (\<lambda>sum t. sum + tp_elo t * tp_prob t) 0 teamProbs
              in Inr \<lparr>expectedElo = js_round expectedElo,
                      minElo = fold min (map tp_elo (tl teamElos)) (tp_elo (hd teamElos)),
                      maxElo = fold max (map tp_elo (tl teamElos)) (tp_elo (hd teamElos)),
                      sim_teams = js_sort byProbDesc teamProbs\<rparr>)
         | _ \<Rightarrow> Inl TypeError)"

section \<open>The resolvers in double-precision arithmetic\<close>

text \<open>
  The numbers of the source are IEEE 754 binary64 values: every arithmetic operation
  returns the representable number nearest to the exact result, a tie going to the one
  with the even significand. \<open>rne\<close> rounds a real to the nearest integer in this way,
  and \<open>fl\<close> rounds a real to 53 significant bits. The exponent range is not modelled
  (no overflow to infinity, no subnormal numbers); ratings of any realistic size stay far
  inside it. \<open>Math.pow\<close> is taken to return the representable number nearest to the
  exact power.
\<close>

definition rne :: "real \<Rightarrow> int" where
  "rne x =
     (let n = \<lfloor>x\<rfloor>
      in if x - of_int n < 1 / 2 then n
         else if 1 / 2 < x - of_int n then n + 1
         else if even n then n else n + 1)"

definition pow2 :: "int \<Rightarrow> real" where
  "pow2 e = (if 0 \<le> e then 2 ^ nat e else 1 / 2 ^ nat (- e))"

definition fl :: "real \<Rightarrow> real" where
  "fl x = (if x = 0 then 0
           else let e = \<lfloor>log 2 \<bar>x\<bar>\<rfloor> - 52 in of_int (rne (x / pow2 e)) * pow2 e)"

definition fadd :: "real \<Rightarrow> real \<Rightarrow> real" where "fadd a b = fl (a + b)"

definition fsub :: "real \<Rightarrow> real \<Rightarrow> real" where "fsub a b = fl (a - b)"

definition fmul :: "real \<Rightarrow> real \<Rightarrow> real" where "fmul a b = fl (a * b)"

definition fdiv :: "real \<Rightarrow> real \<Rightarrow> real" where "fdiv a b = fl (a / b)"

definition pow64 :: "real \<Rightarrow> real \<Rightarrow> real" where "pow64 a b = fl (a powr b)"

text \<open>
  \<open>eloWinProbability\<close> and \<open>simulateUEFAPath\<close> as the source computes them, every
  operation rounded. The comparators of the two sorts keep their exact form: the sign of
  a rounded difference is the sign of the exact difference.
\<close>

definition eloWinProbability64 :: "real \<Rightarrow> real \<Rightarrow> real" where
  "eloWinProbability64 rating1 rating2 =
     fdiv 1 (fadd 1 (pow64 10 (fdiv (fsub rating2 rating1) 400)))"

definition simulateUEFAPath64 :: "path \<Rightarrow> ratings \<Rightarrow> error + playoffSim" where
  "simulateUEFAPath64 p ratings =
     (let teamElos = map (\<lambda>c. \<lparr>tp_code = Some c, tp_elo = js_or (ratings c) 1400, tp_prob = 0\<rparr>)
                       (path_teams p);
          sorted = js_sort byEloDesc teamElos
      in case sorted of
           t1 # t2 # t3 # t4 # _ \<Rightarrow>
             (let sf1_t1Win = eloWinProbability64 (tp_elo t1) (tp_elo t4);
                  sf2_t2Win = eloWinProbability64 (tp_elo t2) (tp_elo t3);
                  t1WinsProb = fmul sf1_t1Win
                    (fadd (fmul sf2_t2Win (eloWinProbability64 (tp_elo t1) (tp_elo t2)))
                          (fmul (fsub 1 sf2_t2Win) (eloWinProbability64 (tp_elo t1) (tp_elo t3))));
                  t4WinsProb = fmul (fsub 1 sf1_t1Win)
                    (fadd (fmul sf2_t2Win (eloWinProbability64 (tp_elo t4) (tp_elo t2)))
                          (fmul (fsub 1 sf2_t2Win) (eloWinProbability64 (tp_elo t4) (tp_elo t3))));
                  t2WinsProb = fmul sf2_t2Win
                    (fadd (fmul sf1_t1Win (eloWinProbability64 (tp_elo t2) (tp_elo t1)))
                          (fmul (fsub 1 sf1_t1Win) (eloWinProbability64 (tp_elo t2) (tp_elo t4))));
                  t3WinsProb = fmul (fsub 1 sf2_t2Win)
                    (fadd (fmul sf1_t1Win (eloWinProbability64 (tp_elo t3) (tp_elo t1)))
                          (fmul (fsub 1 sf1_t1Win) (eloWinProbability64 (tp_elo t3) (tp_elo t4))));
                  teamProbs = [t1\<lparr>tp_prob := t1WinsProb\<rparr>, t2\<lparr>tp_prob := t2WinsProb\<rparr>,
                               t3\<lparr>tp_prob := t3WinsProb\<rparr>, t4\<lparr>tp_prob := t4WinsProb\<rparr>];
                  expectedElo = foldl (\<lambda>sum t. fadd sum (fmul (tp_elo t) (tp_prob t))) 0 teamProbs
              in Inr \<lparr>expectedElo = js_round expectedElo,
                      minElo = fold min (map tp_elo (tl teamElos)) (tp_elo (hd teamElos)),
                      maxElo = fold max (map tp_elo (tl teamElos)) (tp_elo (hd teamElos)),
                      sim_teams = js_sort byProbDesc teamProbs\<rparr>)
         | _ \<Rightarrow> Inl TypeError)"
section \<open>JavaScript objects as ordered dictionaries\<close>

text \<open>
  An object used as a dictionary keeps its string keys in insertion order; \<open>obj[k] = v\<close>
  replaces the value of an existing key in place and appends a new key at the end.
\<close>

fun js_put :: "(string \<times> 'a) list \<Rightarrow> string \<Rightarrow> 'a \<Rightarrow> (string \<times> 'a) list" where
  "js_put [] k v = [(k, v)]"
| "js_put ((k', v') # kvs) k v =
     (if k' = k then (k, v) # kvs else (k', v') # js_put kvs k v)"

text \<open>
  \<open>obj[k].field op= ...\<close> on a key that is present. (On an absent key the source would
  throw; every use below is on a key that was stored before.)
\<close>

definition js_modify :: "(string \<times> 'a) list \<Rightarrow> string \<Rightarrow> ('a \<Rightarrow> 'a) \<Rightarrow> (string \<times> 'a) list" where
  "js_modify kvs k f = map (\<lambda>(k', v). if k' = k then (k', f v) else (k', v)) kvs"

text \<open>
  \<open>Object.entries\<close> lists the keys that are canonical array indices (decimal numerals
  below \<open>2^32 - 1\<close> without leading zero) first, in ascending numeric order, and then all
  other keys in insertion order.
\<close>

definition is_digit :: "char \<Rightarrow> bool" where
  "is_digit c = (48 \<le> (of_char c :: nat) \<and> (of_char c :: nat) \<le> 57)"

definition digit_value :: "char \<Rightarrow> nat" where
  "digit_value c = of_char c - 48"

definition decimal_value :: "string \<Rightarrow> nat" where
  "decimal_value s = foldl (\<lambda>n c. 10 * n + digit_value c) 0 s"

definition is_array_index :: "string \<Rightarrow> bool" where
  "is_array_index s =
     (s \<noteq> [] \<and> list_all is_digit s \<and> (s = ''0'' \<or> hd s \<noteq> CHR ''0'') \<and>
      decimal_value s < 2 ^ 32 - 1)"

definition js_entries :: "(string \<times> 'a) list \<Rightarrow> (string \<times> 'a) list" where
  "js_entries kvs =
     sort_key (\<lambda>(k, v). decimal_value k) (filter (\<lambda>(k, v). is_array_index k) kvs) @
     filter (\<lambda>(k, v). \<not> is_array_index k) kvs"

section \<open>Group stage\<close>

record team =
  code :: string
  name :: string
  elo :: real
  isPlayoff :: bool

text \<open>
  \<open>Math.random()\<close> is the only source of randomness. It is modelled as a fixed sequence
  \<open>rnd\<close> of draws together with the index of the next draw; a function that draws
  returns the index after its last draw.
\<close>

type_synonym rng = "nat \<Rightarrow> real"

datatype outcome = Win | Draw | Loss

text \<open>\<open>simulateMatch\<close> / \<open>simulateGroupMatch\<close>, with the draw \<open>rand\<close> passed in.\<close>

definition simulateMatch :: "real \<Rightarrow> real \<Rightarrow> real \<Rightarrow> outcome" where
  "simulateMatch teamElo oppElo rand =
     (let p = getMatchProbabilities teamElo oppElo
      in if rand < winProb p then Win
         else if rand < winProb p + drawProb p then Draw
         else Loss)"

text \<open>
  The nested loops \<open>for (i = 0; i < n; i++) for (j = i + 1; j < n; j++)\<close> of both group
  simulators visit these index pairs, in this order.
\<close>

definition indexPairs :: "nat \<Rightarrow> (nat \<times> nat) list" where
  "indexPairs n = concat (map (\<lambda>i. map (\<lambda>j. (i, j)) [Suc i..<n]) [0..<n])"

subsection \<open>Standalone Monte Carlo group simulator (src/lib/sosCalculator.js)\<close>

text \<open>
  The dictionaries \<open>stats\<close>, \<open>simPoints\<close>, \<open>simWins\<close>, \<open>simDraws\<close> and \<open>simLosses\<close>
  are read and written only at the codes of the given teams, all of which are
  initialised to zero before; they are modelled as total functions that are zero
  everywhere at the start.
\<close>

record mcStats =
  ms_wins :: nat
  ms_draws :: nat
  ms_losses :: nat
  ms_points :: nat
  ms_positions :: "nat list"

record simTally =
  simPoints :: "string \<Rightarrow> nat"
  simWins :: "string \<Rightarrow> nat"
  simDraws :: "string \<Rightarrow> nat"
  simLosses :: "string \<Rightarrow> nat"

record mcStanding =
  sd_code :: string
  sd_points :: nat

definition mcMatches :: "team list \<Rightarrow> (team \<times> team) list" where
  "mcMatches teams = map (\<lambda>(i, j). (teams ! i, teams ! j)) (indexPairs (length teams))"

definition bump :: "(string \<Rightarrow> nat) \<Rightarrow> string \<Rightarrow> nat \<Rightarrow> (string \<Rightarrow> nat)" where
  "bump f k n = f(k := f k + n)"

definition recordResult :: "simTally \<Rightarrow> team \<Rightarrow> team \<Rightarrow> outcome \<Rightarrow> simTally" where
  "recordResult t teamA teamB result =
     (case result of
        Win \<Rightarrow> t\<lparr>simPoints := bump (simPoints t) (code teamA) 3,
                  simWins := bump (simWins t) (code teamA) 1,
                  simLosses := bump (simLosses t) (code teamB) 1\<rparr>
      | Loss \<Rightarrow> t\<lparr>simPoints := bump (simPoints t) (code teamB) 3,
                   simWins := bump (simWins t) (code teamB) 1,
                   simLosses := bump (simLosses t) (code teamA) 1\<rparr>
      | Draw \<Rightarrow> t\<lparr>simPoints := bump (bump (simPoints t) (code teamA) 1) (code teamB) 1,
                   simDraws := bump (bump (simDraws t) (code teamA) 1) (code teamB) 1\<rparr>)"

fun playMatches :: "(team \<times> team) list \<Rightarrow> rng \<Rightarrow> nat \<Rightarrow> simTally \<Rightarrow> simTally" where
  "playMatches [] rnd i t = t"
| "playMatches ((teamA, teamB) # ms) rnd i t =
     playMatches ms rnd (Suc i)
       (recordResult t teamA teamB (simulateMatch (elo teamA) (elo teamB) (rnd i)))"

text \<open>The comparator \<open>(a, b) => b.points - a.points\<close>.\<close>

definition byPointsDesc :: "mcStanding \<Rightarrow> mcStanding \<Rightarrow> real" where
  "byPointsDesc a b = real (sd_points b) - real (sd_points a)"

definition mcStandings :: "team list \<Rightarrow> simTally \<Rightarrow> mcStanding list" where
  "mcStandings teams t =
     js_sort byPointsDesc
       (map (\<lambda>team. \<lparr>sd_code = code team, sd_points = simPoints t (code team)\<rparr>) teams)"

text \<open>
  \<open>stats[team.code].positions[index]++\<close>. The counter array has four entries; an index
  beyond them stores a value that no later code reads, modelled as no change.
\<close>

definition countPosition :: "(string \<Rightarrow> mcStats) \<Rightarrow> string \<Rightarrow> nat \<Rightarrow> (string \<Rightarrow> mcStats)" where
  "countPosition stats c index =
     stats(c := (stats c)\<lparr>ms_positions :=
        (ms_positions (stats c))[index := ms_positions (stats c) ! index + 1]\<rparr>)"

definition accumulate :: "simTally \<Rightarrow> (string \<Rightarrow> mcStats) \<Rightarrow> team \<Rightarrow> (string \<Rightarrow> mcStats)" where
  "accumulate t stats team =
     stats(code team := (stats (code team))
       \<lparr>ms_wins := ms_wins (stats (code team)) + simWins t (code team),
        ms_draws := ms_draws (stats (code team)) + simDraws t (code team),
        ms_losses := ms_losses (stats (code team)) + simLosses t (code team),
        ms_points := ms_points (stats (code team)) + simPoints t (code team)\<rparr>)"

text \<open>One pass of the simulation loop, starting at draw \<open>i\<close>.\<close>

definition mcIteration :: "team list \<Rightarrow> rng \<Rightarrow> nat \<Rightarrow> (string \<Rightarrow> mcStats) \<Rightarrow> (string \<Rightarrow> mcStats)" where
  "mcIteration teams rnd i stats =
     (let t = playMatches (mcMatches teams) rnd i
                \<lparr>simPoints = (\<lambda>_. 0), simWins = (\<lambda>_. 0), simDraws = (\<lambda>_. 0),
                 simLosses = (\<lambda>_. 0)\<rparr>;
          stats1 = fold (\<lambda>team s. accumulate t s team) teams stats;
          standings = mcStandings teams t
      in fold (\<lambda>(team, index) s. countPosition s (sd_code team) index)
           (zip standings [0..<length standings]) stats1)"

fun mcLoop :: "nat \<Rightarrow> team list \<Rightarrow> rng \<Rightarrow> nat \<Rightarrow> (string \<Rightarrow> mcStats) \<Rightarrow> (string \<Rightarrow> mcStats)" where
  "mcLoop 0 teams rnd i stats = stats"
| "mcLoop (Suc n) teams rnd i stats =
     mcLoop n teams rnd (i + length (mcMatches teams)) (mcIteration teams rnd i stats)"

record posRow = team +
  pos1Prob :: real
  pos2Prob :: real
  pos3Prob :: real
  pos4Prob :: real

record mcRow = posRow +
  wins :: real
  draws :: real
  losses :: real
  points :: real
  qualifyProb :: real
  mc_r16Prob :: real

definition THIRD_PLACE_QUALIFY_RATE :: real where
  "THIRD_PLACE_QUALIFY_RATE = 8 / 12"

definition AVG_R32_OPPONENT_ELO :: real where
  "AVG_R32_OPPONENT_ELO = 1650"

text \<open>
  \<open>simulateGroupMonteCarlo(teams, simulations)\<close> with the random draws \<open>rnd\<close>. The
  number of simulations is a natural number; the quotients by it are meaningful for a
  positive number only (with zero simulations the source computes \<open>0 / 0\<close>).
\<close>

definition simulateGroupMonteCarlo :: "team list \<Rightarrow> nat \<Rightarrow> rng \<Rightarrow> mcRow list" where
  "simulateGroupMonteCarlo teams simulations rnd =
     (let stats = mcLoop simulations teams rnd 0
            (\<lambda>_. \<lparr>ms_wins = 0, ms_draws = 0, ms_losses = 0, ms_points = 0,
                  ms_positions = [0, 0, 0, 0]\<rparr>)
      in map (\<lambda>team.
           let s = stats (code team);
               pos1Prob = real (ms_positions s ! 0) / real simulations;
               pos2Prob = real (ms_positions s ! 1) / real simulations;
               pos3Prob = real (ms_positions s ! 2) / real simulations;
               pos4Prob = real (ms_positions s ! 3) / real simulations;
               qualifyProb = pos1Prob + pos2Prob + pos3Prob * THIRD_PLACE_QUALIFY_RATE;
               r32WinProb = 1 / (1 + 10 powr ((AVG_R32_OPPONENT_ELO - elo team) / 400));
               r16Prob = qualifyProb * r32WinProb
           in \<lparr>code = code team, name = name team, elo = elo team, isPlayoff = isPlayoff team,
               pos1Prob = pos1Prob, pos2Prob = pos2Prob, pos3Prob = pos3Prob,
               pos4Prob = pos4Prob,
               wins = real (ms_wins s) / real simulations,
               draws = real (ms_draws s) / real simulations,
               losses = real (ms_losses s) / real simulations,
               points = real (ms_points s) / real simulations,
               qualifyProb = qualifyProb, mc_r16Prob = r16Prob\<rparr>) teams)"

subsection \<open>Group simulation of the tournament simulator (bracketSimulator)\<close>

record gstat =
  g_points :: nat
  g_gd :: int
  g_elo :: real

text \<open>
  An entry of a group's standings. The third-placed entries collected for the
  qualification carry the name of their group in addition.
\<close>

record standing =
  st_code :: string
  st_points :: nat
  st_gd :: int
  st_elo :: real
  st_group :: "string option"

definition groupResult :: "(string \<times> gstat) list \<Rightarrow> team \<Rightarrow> team \<Rightarrow> outcome \<Rightarrow> (string \<times> gstat) list" where
  "groupResult stats ti tj result =
     (case result of
        Win \<Rightarrow>
          js_modify
            (js_modify
               (js_modify stats (code ti) (\<lambda>s. s\<lparr>g_points := g_points s + 3\<rparr>))
               (code ti) (\<lambda>s. s\<lparr>g_gd := g_gd s + 1\<rparr>))
            (code tj) (\<lambda>s. s\<lparr>g_gd := g_gd s - 1\<rparr>)
      | Loss \<Rightarrow>
          js_modify
            (js_modify
               (js_modify stats (code tj) (\<lambda>s. s\<lparr>g_points := g_points s + 3\<rparr>))
               (code tj) (\<lambda>s. s\<lparr>g_gd := g_gd s + 1\<rparr>))
            (code ti) (\<lambda>s. s\<lparr>g_gd := g_gd s - 1\<rparr>)
      | Draw \<Rightarrow>
          js_modify
            (js_modify stats (code ti) (\<lambda>s. s\<lparr>g_points := g_points s + 1\<rparr>))
            (code tj) (\<lambda>s. s\<lparr>g_points := g_points s + 1\<rparr>))"

fun playGroup :: "team list \<Rightarrow> (nat \<times> nat) list \<Rightarrow> rng \<Rightarrow> nat \<Rightarrow> (string \<times> gstat) list
    \<Rightarrow> (string \<times> gstat) list" where
  "playGroup teams [] rnd k stats = stats"
| "playGroup teams ((i, j) # ps) rnd k stats =
     playGroup teams ps rnd (Suc k)
       (groupResult stats (teams ! i) (teams ! j)
          (simulateMatch (elo (teams ! i)) (elo (teams ! j)) (rnd k)))"

text \<open>
  The comparator of the standings: points, then goal difference, then rating, each
  descending.
\<close>

definition byStanding :: "standing \<Rightarrow> standing \<Rightarrow> real" where
  "byStanding a b =
     (if st_points b \<noteq> st_points a then real (st_points b) - real (st_points a)
      else if st_gd b \<noteq> st_gd a then real_of_int (st_gd b - st_gd a)
      else st_elo b - st_elo a)"

definition initGroupStats :: "team list \<Rightarrow> (string \<times> gstat) list" where
  "initGroupStats teams =
     fold (\<lambda>team stats. js_put stats (code team) \<lparr>g_points = 0, g_gd = 0, g_elo = elo team\<rparr>)
       teams []"

definition toStanding :: "string \<times> gstat \<Rightarrow> standing" where
  "toStanding e = \<lparr>st_code = fst e, st_points = g_points (snd e), st_gd = g_gd (snd e),
                    st_elo = g_elo (snd e), st_group = None\<rparr>"

definition simulateGroup :: "team list \<Rightarrow> rng \<Rightarrow> nat \<Rightarrow> standing list \<times> nat" where
  "simulateGroup teams rnd k =
     (let stats = playGroup teams (indexPairs (length teams)) rnd k (initGroupStats teams);
          standings = js_sort byStanding (map toStanding (js_entries stats))
      in (standings, k + length (indexPairs (length teams))))"

section \<open>Tournament simulator (bracketSimulator)\<close>

subsection \<open>Static tournament structure\<close>

text \<open>
  A knockout match is either a Round-of-32 match with two slot notations or a later match
  with the ids of its predecessor matches. Reading \<open>team1\<close>, \<open>team2\<close> or
  \<open>prevMatches\<close> from a match of the other shape gives \<open>undefined\<close> in the source.
\<close>

datatype kmatch =
    SlotMatch nat string string
  | PrevMatch nat "nat list"

fun match :: "kmatch \<Rightarrow> nat" where
  "match (SlotMatch i t1 t2) = i"
| "match (PrevMatch i ps) = i"

record knockout =
  r32 :: "kmatch list"
  r16 :: "kmatch list"
  qf :: "kmatch list"
  sf :: "kmatch list"
  final :: "kmatch list"

text \<open>\<open>groups\<close> maps a group name to the codes of its teams (\<open>groups[name].teams\<close>).\<close>

record groupData =
  groups :: "(string \<times> string list) list"
  knockout :: knockout

subsection \<open>Knockout match and slot notation\<close>

definition simulateKnockoutMatch :: "real \<Rightarrow> real \<Rightarrow> real \<Rightarrow> nat" where
  "simulateKnockoutMatch team1Elo team2Elo rand =
     (let winProb = 1 / (1 + 10 powr ((team2Elo - team1Elo) / 400))
      in if rand < winProb then 1 else 2)"

text \<open>
  \<open>parseSlot\<close> returns \<open>{pos: 3, pool}\<close> for a slot that starts with \<open>3\<close> and
  \<open>{pos, group}\<close> otherwise, where \<open>pos = parseInt(slot[0])\<close> (\<open>NaN\<close>, here \<open>None\<close>,
  unless the first character is a digit) and \<open>group = slot[1]\<close> (\<open>undefined\<close> for a
  slot of fewer than two characters).
\<close>

datatype parsedSlot =
    PoolSlot "string list"
  | PosSlot "nat option" "string option"

definition parseInt1 :: "char option \<Rightarrow> nat option" where
  "parseInt1 c = (case c of None \<Rightarrow> None
                  | Some d \<Rightarrow> if is_digit d then Some (digit_value d) else None)"

definition parseSlot :: "string \<Rightarrow> parsedSlot" where
  "parseSlot slot =
     (if js_index slot 0 = Some (CHR ''3'') then PoolSlot (map (\<lambda>c. [c]) (drop 1 slot))
      else PosSlot (parseInt1 (js_index slot 0)) (map_option (\<lambda>c. [c]) (js_index slot 1)))"

subsection \<open>Per-team counters\<close>

text \<open>
  \<open>teamStats\<close> is initialised for the code of every team of every group before the
  simulation loop and is read and written at such codes only; it is modelled as a total
  function that is zero everywhere at the start.
\<close>

record tstats =
  ts_positions :: "nat list"
  r32Count :: nat
  r16Count :: nat
  qfCount :: nat
  sfCount :: nat
  finalCount :: nat
  winCount :: nat

type_synonym teamStats = "string \<Rightarrow> tstats"

definition creditPosition :: "teamStats \<Rightarrow> string \<Rightarrow> nat \<Rightarrow> teamStats" where
  "creditPosition ts c p =
     ts(c := (ts c)\<lparr>ts_positions := (ts_positions (ts c))[p := ts_positions (ts c) ! p + 1]\<rparr>)"

definition creditR32 :: "teamStats \<Rightarrow> string \<Rightarrow> teamStats" where
  "creditR32 ts c = ts(c := (ts c)\<lparr>r32Count := r32Count (ts c) + 1\<rparr>)"

definition creditR16 :: "teamStats \<Rightarrow> string \<Rightarrow> teamStats" where
  "creditR16 ts c = ts(c := (ts c)\<lparr>r16Count := r16Count (ts c) + 1\<rparr>)"

definition creditQF :: "teamStats \<Rightarrow> string \<Rightarrow> teamStats" where
  "creditQF ts c = ts(c := (ts c)\<lparr>qfCount := qfCount (ts c) + 1\<rparr>)"

definition creditSF :: "teamStats \<Rightarrow> string \<Rightarrow> teamStats" where
  "creditSF ts c = ts(c := (ts c)\<lparr>sfCount := sfCount (ts c) + 1\<rparr>)"

definition creditFinal :: "teamStats \<Rightarrow> string \<Rightarrow> teamStats" where
  "creditFinal ts c = ts(c := (ts c)\<lparr>finalCount := finalCount (ts c) + 1\<rparr>)"

definition creditWin :: "teamStats \<Rightarrow> string \<Rightarrow> teamStats" where
  "creditWin ts c = ts(c := (ts c)\<lparr>winCount := winCount (ts c) + 1\<rparr>)"

subsection \<open>Step 1: group stages\<close>

text \<open>
  \<open>standings.forEach((team, pos) => ...)\<close>: count the position, and credit the first two
  with reaching the Round of 32.
\<close>

definition creditStandings :: "teamStats \<Rightarrow> standing list \<Rightarrow> teamStats" where
  "creditStandings ts standings =
     fold (\<lambda>(t, p) s.
             let s1 = creditPosition s (st_code t) p
             in if p = 0 \<or> p = 1 then creditR32 s1 (st_code t) else s1)
       (zip standings [0..<length standings]) ts"

fun simulateGroups :: "(string \<times> team list) list \<Rightarrow> rng \<Rightarrow> nat \<Rightarrow>
    (string \<times> standing list) list \<Rightarrow> standing list \<Rightarrow> teamStats \<Rightarrow>
    (string \<times> standing list) list \<times> standing list \<times> teamStats \<times> nat" where
  "simulateGroups [] rnd k groupStandings thirdPlaceTeams ts =
     (groupStandings, thirdPlaceTeams, ts, k)"
| "simulateGroups ((groupName, teams) # rest) rnd k groupStandings thirdPlaceTeams ts =
     (let standings = fst (simulateGroup teams rnd k);
          k' = snd (simulateGroup teams rnd k);
          groupStandings' = js_put groupStandings groupName standings;
          ts' = creditStandings ts standings;
          thirdPlaceTeams' =
            (case js_index standings 2 of
               None \<Rightarrow> thirdPlaceTeams
             | Some s \<Rightarrow> thirdPlaceTeams @ [s\<lparr>st_group := Some groupName\<rparr>])
      in simulateGroups rest rnd k' groupStandings' thirdPlaceTeams' ts')"

subsection \<open>Step 2: the best eight third-placed teams\<close>

definition qualifyThirds :: "standing list \<Rightarrow> standing list" where
  "qualifyThirds thirdPlaceTeams = take 8 (js_sort byStanding thirdPlaceTeams)"

definition markThirds :: "teamStats \<Rightarrow> standing list \<Rightarrow> teamStats" where
  "markThirds ts qualifyingThirds = fold (\<lambda>t s. creditR32 s (st_code t)) qualifyingThirds ts"

subsection \<open>Step 3: Round of 32\<close>

text \<open>
  \<open>groupStandings[g][i]\<close>: a group that is not in the dictionary throws a TypeError; a
  position beyond the standings reads \<open>undefined\<close>.
\<close>

definition lookupStanding :: "(string \<times> standing list) list \<Rightarrow> string option \<Rightarrow> nat \<Rightarrow>
    error + standing option" where
  "lookupStanding groupStandings g i =
     (case map_of groupStandings (js_key g) of
        None \<Rightarrow> Inl TypeError
      | Some standings \<Rightarrow> Inr (js_index standings i))"

text \<open>The first slot of a match: only positions 2 and 1 are resolved.\<close>

definition resolveTeam1 :: "(string \<times> standing list) list \<Rightarrow> string \<Rightarrow> error + standing option" where
  "resolveTeam1 groupStandings slot =
     (case parseSlot slot of
        PosSlot p g \<Rightarrow>
          if p = Some 2 then lookupStanding groupStandings g 1
          else if p = Some 1 then lookupStanding groupStandings g 0
          else Inr None
      | PoolSlot pool \<Rightarrow> Inr None)"

text \<open>
  The second slot of a match: positions 2 and 1, and a third-place pool, which takes the
  first remaining qualifier whose group is in the pool and removes it from the list.
\<close>

definition inPool :: "string list \<Rightarrow> standing \<Rightarrow> bool" where
  "inPool pool t = (case st_group t of None \<Rightarrow> False | Some g \<Rightarrow> g \<in> set pool)"

definition resolveTeam2 :: "(string \<times> standing list) list \<Rightarrow> standing list \<Rightarrow> string \<Rightarrow>
    error + (standing option \<times> standing list)" where
  "resolveTeam2 groupStandings qualifyingThirds slot =
     (case parseSlot slot of
        PosSlot p g \<Rightarrow>
          if p = Some 2 then
            (case lookupStanding groupStandings g 1 of
               Inl e \<Rightarrow> Inl e | Inr t \<Rightarrow> Inr (t, qualifyingThirds))
          else if p = Some 1 then
            (case lookupStanding groupStandings g 0 of
               Inl e \<Rightarrow> Inl e | Inr t \<Rightarrow> Inr (t, qualifyingThirds))
          else Inr (None, qualifyingThirds)
      | PoolSlot pool \<Rightarrow>
          (case find (inPool pool) qualifyingThirds of
             None \<Rightarrow> Inr (None, qualifyingThirds)
           | Some matchingThird \<Rightarrow>
               Inr (Some matchingThird, remove1 matchingThird qualifyingThirds)))"

text \<open>
  The state of the Round-of-32 loop: the remaining qualifying thirds, the winners by match
  id, the counters and the index of the next random draw.
\<close>

type_synonym winners = "nat \<Rightarrow> standing option"

fun r32Match :: "(string \<times> standing list) list \<Rightarrow> rng \<Rightarrow> kmatch \<Rightarrow>
    standing list \<times> winners \<times> teamStats \<times> nat \<Rightarrow>
    error + (standing list \<times> winners \<times> teamStats \<times> nat)" where
  "r32Match groupStandings rnd (SlotMatch i slot1 slot2) (qualifyingThirds, r32Winners, ts, k) =
     (case resolveTeam1 groupStandings slot1 of
        Inl e \<Rightarrow> Inl e
      | Inr team1 \<Rightarrow>
          (case resolveTeam2 groupStandings qualifyingThirds slot2 of
             Inl e \<Rightarrow> Inl e
           | Inr (team2, qualifyingThirds') \<Rightarrow>
               (case (team1, team2) of
                  (Some a, Some b) \<Rightarrow>
                    (let w = (if simulateKnockoutMatch (st_elo a) (st_elo b) (rnd k) = 1
                              then a else b)
                     in Inr (qualifyingThirds', r32Winners(i \<mapsto> w),
                             creditR16 ts (st_code w), Suc k))
                | _ \<Rightarrow> Inr (qualifyingThirds', r32Winners, ts, k))))"
| "r32Match groupStandings rnd (PrevMatch i ps) st = Inl TypeError"

fun simulateR32 :: "(string \<times> standing list) list \<Rightarrow> rng \<Rightarrow> kmatch list \<Rightarrow>
    standing list \<times> winners \<times> teamStats \<times> nat \<Rightarrow>
    error + (standing list \<times> winners \<times> teamStats \<times> nat)" where
  "simulateR32 groupStandings rnd [] st = Inr st"
| "simulateR32 groupStandings rnd (m # ms) st =
     (case r32Match groupStandings rnd m st of
        Inl e \<Rightarrow> Inl e
      | Inr st' \<Rightarrow> simulateR32 groupStandings rnd ms st')"

subsection \<open>Steps 4 to 6: Round of 16, quarter-finals, semi-finals\<close>

text \<open>
  The three loops of the source differ only in the dictionary of winners they read,
  the one they write and the counter they increment; \<open>credit\<close> is that counter.
  \<open>prevWinners[match.prevMatches[i]]\<close> reads \<open>undefined\<close> when the list is too short.
\<close>

definition winnerOf :: "winners \<Rightarrow> nat list \<Rightarrow> nat \<Rightarrow> standing option" where
  "winnerOf prevWinners ps i = (case js_index ps i of None \<Rightarrow> None | Some p \<Rightarrow> prevWinners p)"

fun roundMatch :: "(teamStats \<Rightarrow> string \<Rightarrow> teamStats) \<Rightarrow> winners \<Rightarrow> rng \<Rightarrow> kmatch \<Rightarrow>
    winners \<times> teamStats \<times> nat \<Rightarrow> error + (winners \<times> teamStats \<times> nat)" where
  "roundMatch credit prevWinners rnd (PrevMatch i ps) (roundWinners, ts, k) =
     (case (winnerOf prevWinners ps 0, winnerOf prevWinners ps 1) of
        (Some a, Some b) \<Rightarrow>
          (let w = (if simulateKnockoutMatch (st_elo a) (st_elo b) (rnd k) = 1 then a else b)
           in Inr (roundWinners(i \<mapsto> w), credit ts (st_code w), Suc k))
      | _ \<Rightarrow> Inr (roundWinners, ts, k))"
| "roundMatch credit prevWinners rnd (SlotMatch i slot1 slot2) st = Inl TypeError"

fun simulateRound :: "(teamStats \<Rightarrow> string \<Rightarrow> teamStats) \<Rightarrow> winners \<Rightarrow> rng \<Rightarrow> kmatch list \<Rightarrow>
    winners \<times> teamStats \<times> nat \<Rightarrow> error + (winners \<times> teamStats \<times> nat)" where
  "simulateRound credit prevWinners rnd [] st = Inr st"
| "simulateRound credit prevWinners rnd (m # ms) st =
     (case roundMatch credit prevWinners rnd m st of
        Inl e \<Rightarrow> Inl e
      | Inr st' \<Rightarrow> simulateRound credit prevWinners rnd ms st')"

subsection \<open>Step 7: final\<close>

text \<open>Only \<open>knockout.final[0]\<close> is played; without it the source throws.\<close>

definition simulateFinal :: "kmatch list \<Rightarrow> winners \<Rightarrow> rng \<Rightarrow> teamStats \<times> nat \<Rightarrow>
    error + (teamStats \<times> nat)" where
  "simulateFinal finals sfWinners rnd st =
     (case finals of
        PrevMatch i ps # _ \<Rightarrow>
          (case (winnerOf sfWinners ps 0, winnerOf sfWinners ps 1) of
             (Some finalist1, Some finalist2) \<Rightarrow>
               (let champion =
                      (if simulateKnockoutMatch (st_elo finalist1) (st_elo finalist2)
                            (rnd (snd st)) = 1
                       then finalist1 else finalist2)
                in Inr (creditWin (fst st) (st_code champion), Suc (snd st)))
           | _ \<Rightarrow> Inr st)
      | _ \<Rightarrow> Inl TypeError)"

subsection \<open>One iteration and the simulation loop\<close>

definition simulateIteration :: "(string \<times> team list) list \<Rightarrow> knockout \<Rightarrow> rng \<Rightarrow>
    teamStats \<times> nat \<Rightarrow> error + (teamStats \<times> nat)" where
  "simulateIteration allTeams ko rnd st =
     (case simulateGroups (js_entries allTeams) rnd (snd st) [] [] (fst st) of
        (groupStandings, thirdPlaceTeams, ts1, k1) \<Rightarrow>
          (let qualifyingThirds = qualifyThirds thirdPlaceTeams;
               ts2 = markThirds ts1 qualifyingThirds
           in case simulateR32 groupStandings rnd (r32 ko)
                     (qualifyingThirds, Map.empty, ts2, k1) of
                Inl e \<Rightarrow> Inl e
              | Inr (remaining, r32Winners, ts3, k3) \<Rightarrow>
                  (case simulateRound creditQF r32Winners rnd (r16 ko) (Map.empty, ts3, k3) of
                     Inl e \<Rightarrow> Inl e
                   | Inr (r16Winners, ts4, k4) \<Rightarrow>
                       (case simulateRound creditSF r16Winners rnd (qf ko)
                               (Map.empty, ts4, k4) of
                          Inl e \<Rightarrow> Inl e
                        | Inr (qfWinners, ts5, k5) \<Rightarrow>
                            (case simulateRound creditFinal qfWinners rnd (sf ko)
                                    (Map.empty, ts5, k5) of
                               Inl e \<Rightarrow> Inl e
                             | Inr (sfWinners, ts6, k6) \<Rightarrow>
                                 simulateFinal (final ko) sfWinners rnd (ts6, k6))))))"

fun simulateLoop :: "nat \<Rightarrow> (string \<times> team list) list \<Rightarrow> knockout \<Rightarrow> rng \<Rightarrow>
    teamStats \<times> nat \<Rightarrow> error + (teamStats \<times> nat)" where
  "simulateLoop 0 allTeams ko rnd st = Inr st"
| "simulateLoop (Suc n) allTeams ko rnd st =
     (case simulateIteration allTeams ko rnd st of
        Inl e \<Rightarrow> Inl e
      | Inr st' \<Rightarrow> simulateLoop n allTeams ko rnd st')"

subsection \<open>Team data and results\<close>

definition startsWith :: "string \<Rightarrow> string \<Rightarrow> bool" where
  "startsWith s p = (take (length p) s = p)"

text \<open>\<open>code.replace('_', ' ')\<close> replaces the first underscore.\<close>

fun replaceFirstUnderscore :: "string \<Rightarrow> string" where
  "replaceFirstUnderscore [] = []"
| "replaceFirstUnderscore (c # cs) =
     (if c = CHR ''_'' then CHR '' '' # cs else c # replaceFirstUnderscore cs)"

text \<open>\<open>teamNames[code] || code\<close>: a missing or empty name is falsy.\<close>

definition nameOr :: "string option \<Rightarrow> string \<Rightarrow> string" where
  "nameOr n d = (case n of None \<Rightarrow> d | Some s \<Rightarrow> if s = [] then d else s)"

text \<open>
  \<open>expectedElos\<close> gives the \<open>expectedElo\<close> of a playoff placeholder, \<open>None\<close> when the
  entry or its field is missing.
\<close>

definition buildTeam :: "ratings \<Rightarrow> (string \<Rightarrow> real option) \<Rightarrow> (string \<Rightarrow> string option) \<Rightarrow>
    string \<Rightarrow> team" where
  "buildTeam ratings expectedElos teamNames c =
     (let isPlayoff = (startsWith c ''UEFA_'' \<or> startsWith c ''FIFA_'');
          elo = (if isPlayoff then js_or (expectedElos c) 1400 else js_or (ratings c) 1400);
          name = (if isPlayoff then replaceFirstUnderscore c else nameOr (teamNames c) c)
      in \<lparr>code = c, name = name, elo = elo, isPlayoff = isPlayoff\<rparr>)"

definition buildAllTeams :: "(string \<times> string list) list \<Rightarrow> ratings \<Rightarrow> (string \<Rightarrow> real option) \<Rightarrow>
    (string \<Rightarrow> string option) \<Rightarrow> (string \<times> team list) list" where
  "buildAllTeams gs ratings expectedElos teamNames =
     fold (\<lambda>(groupName, codes) allTeams.
             js_put allTeams groupName (map (buildTeam ratings expectedElos teamNames) codes))
       (js_entries gs) []"

record tournamentRow = posRow +
  r32Prob :: real
  r16Prob :: real
  qfProb :: real
  sfProb :: real
  finalProb :: real
  winProb :: real

text \<open>The comparator \<open>(a, b) => b.r32Prob - a.r32Prob\<close>.\<close>

definition byR32Desc :: "tournamentRow \<Rightarrow> tournamentRow \<Rightarrow> real" where
  "byR32Desc a b = r32Prob b - r32Prob a"

definition resultRow :: "teamStats \<Rightarrow> nat \<Rightarrow> team \<Rightarrow> tournamentRow" where
  "resultRow ts simulations t =
     (let s = ts (code t)
      in \<lparr>code = code t, name = name t, elo = elo t, isPlayoff = isPlayoff t,
          pos1Prob = real (ts_positions s ! 0) / real simulations,
          pos2Prob = real (ts_positions s ! 1) / real simulations,
          pos3Prob = real (ts_positions s ! 2) / real simulations,
          pos4Prob = real (ts_positions s ! 3) / real simulations,
          r32Prob = real (r32Count s) / real simulations,
          r16Prob = real (r16Count s) / real simulations,
          qfProb = real (qfCount s) / real simulations,
          sfProb = real (sfCount s) / real simulations,
          finalProb = real (finalCount s) / real simulations,
          winProb = real (winCount s) / real simulations\<rparr>)"

definition initialStats :: teamStats where
  "initialStats = (\<lambda>_. \<lparr>ts_positions = [0, 0, 0, 0], r32Count = 0, r16Count = 0, qfCount = 0,
                        sfCount = 0, finalCount = 0, winCount = 0\<rparr>)"

text \<open>
  \<open>simulateTournament(groupData, ratings, expectedElos, teamNames, simulations)\<close> with
  the random draws \<open>rnd\<close>. The quotients by the number of simulations are meaningful for
  a positive number only (with zero simulations the source computes \<open>0 / 0\<close>).
\<close>

definition simulateTournament :: "groupData \<Rightarrow> ratings \<Rightarrow> (string \<Rightarrow> real option) \<Rightarrow>
    (string \<Rightarrow> string option) \<Rightarrow> nat \<Rightarrow> rng \<Rightarrow> error + (string \<times> tournamentRow list) list" where
  "simulateTournament gd ratings expectedElos teamNames simulations rnd =
     (let allTeams = buildAllTeams (groups gd) ratings expectedElos teamNames
      in case simulateLoop simulations allTeams (knockout gd) rnd (initialStats, 0) of
           Inl e \<Rightarrow> Inl e
         | Inr (ts, k) \<Rightarrow>
             Inr (fold (\<lambda>(groupName, teams) results.
                          js_put results groupName
                            (js_sort byR32Desc (map (resultRow ts simulations) teams)))
                    (js_entries allTeams) []))"

section \<open>Interactive bracket (public/app.js)\<close>

subsection \<open>State\<close>

text \<open>
  A team object of the bracket. Objects made by \<open>resolveBracketSlot\<close> carry a
  \<open>baseProb\<close>, those made by \<open>getMatchWinner\<close> a \<open>winProb\<close>, and an override only
  \<open>code\<close>, \<open>name\<close> and \<open>elo\<close>; an absent field is \<open>None\<close>. (The fields \<open>slot\<close> and
  \<open>pool\<close> of the source objects are read nowhere and are left out.)
\<close>

record bteam =
  bt_code :: string
  bt_name :: string
  bt_elo :: real
  bt_baseProb :: "real option"
  bt_isThirdPlace :: bool
  bt_winProb :: "real option"

text \<open>
  \<open>bracketOverrides\<close> maps match ids to locked teams. Its keys are integers, which
  \<open>Object.entries\<close> lists in ascending order.
\<close>

type_synonym overrides = "(nat, bteam) fmap"

text \<open>The loaded \<open>sosData\<close>; \<open>groupSimulation\<close> may be missing.\<close>

record sosData =
  groupSimulation :: "(string \<Rightarrow> posRow list option) option"
  worldCupGroups :: groupData

definition getOverride :: "overrides \<Rightarrow> nat \<Rightarrow> bteam option" where
  "getOverride ov matchId = fmlookup ov matchId"

definition knockoutWinProb :: "real \<Rightarrow> real \<Rightarrow> real" where
  "knockoutWinProb elo1 elo2 = 1 / (1 + 10 powr ((elo2 - elo1) / 400))"

subsection \<open>Slots and matches\<close>

fun slot1 :: "kmatch \<Rightarrow> string option" where
  "slot1 (SlotMatch i t1 t2) = Some t1"
| "slot1 (PrevMatch i ps) = None"

fun slot2 :: "kmatch \<Rightarrow> string option" where
  "slot2 (SlotMatch i t1 t2) = Some t2"
| "slot2 (PrevMatch i ps) = None"

fun prevMatches :: "kmatch \<Rightarrow> nat list option" where
  "prevMatches (SlotMatch i t1 t2) = None"
| "prevMatches (PrevMatch i ps) = Some ps"

text \<open>The comparators of \<open>resolveBracketSlot\<close>, by the probability of the position.\<close>

definition byPos1Desc :: "posRow \<Rightarrow> posRow \<Rightarrow> real" where
  "byPos1Desc a b = pos1Prob b - pos1Prob a"

definition byPos2Desc :: "posRow \<Rightarrow> posRow \<Rightarrow> real" where
  "byPos2Desc a b = pos2Prob b - pos2Prob a"

text \<open>
  \<open>resolveBracketSlot(slot)\<close>. The slot is \<open>undefined\<close> (\<open>None\<close>) when it is read from a
  match without slots; then \<open>slot.startsWith\<close> throws. An empty group with position 0 or
  \<open>NaN\<close> passes the length check and the read of the first row throws.
\<close>

definition resolveBracketSlot :: "sosData \<Rightarrow> string option \<Rightarrow> error + bteam option" where
  "resolveBracketSlot sd slot =
     (case groupSimulation sd of
        None \<Rightarrow> Inr None
      | Some groupSim \<Rightarrow>
          (case slot of
             None \<Rightarrow> Inl TypeError
           | Some s \<Rightarrow>
               if js_index s 0 = Some (CHR ''3'') then
                 Inr (Some \<lparr>bt_code = ''3rd-'' @ drop 1 s,
                             bt_name = ''3rd ('' @ drop 1 s @ '')'',
                             bt_elo = 1600, bt_baseProb = Some 0.67,
                             bt_isThirdPlace = True, bt_winProb = None\<rparr>)
               else
                 (let pos = parseInt1 (js_index s 0);
                      g = map_option (\<lambda>c. [c]) (js_index s 1)
                  in case groupSim (js_key g) of
                       None \<Rightarrow> Inr None
                     | Some groupRows \<Rightarrow>
                         if (case pos of None \<Rightarrow> False | Some p \<Rightarrow> length groupRows < p)
                         then Inr None
                         else
                           (case js_sort (if pos = Some 1 then byPos1Desc else byPos2Desc)
                                   groupRows of
                              [] \<Rightarrow> Inl TypeError
                            | t # _ \<Rightarrow>
                                Inr (Some \<lparr>bt_code = code t, bt_name = name t, bt_elo = elo t,
                                            bt_baseProb =
                                              Some (if pos = Some 1 then pos1Prob t
                                                    else pos2Prob t),
                                            bt_isThirdPlace = False, bt_winProb = None\<rparr>)))))"

definition allMatches :: "knockout \<Rightarrow> kmatch list" where
  "allMatches ko = r32 ko @ r16 ko @ qf ko @ sf ko @ final ko"

definition findMatch :: "nat \<Rightarrow> knockout \<Rightarrow> kmatch option" where
  "findMatch matchId ko = find (\<lambda>m. match m = matchId) (allMatches ko)"

text \<open>Results of a loop of calls, in order; the first exception ends the loop.\<close>

fun collect :: "(error + 'a list) list \<Rightarrow> error + 'a list" where
  "collect [] = Inr []"
| "collect (r # rs) =
     (case r of
        Inl e \<Rightarrow> Inl e
      | Inr xs \<Rightarrow> (case collect rs of Inl e \<Rightarrow> Inl e | Inr ys \<Rightarrow> Inr (xs @ ys)))"

subsection \<open>Possible occupants\<close>

fun getPossibleTeamsFromMatch :: "nat \<Rightarrow> sosData \<Rightarrow> overrides \<Rightarrow> knockout \<Rightarrow> nat \<Rightarrow>
    error + bteam list" where
  "getPossibleTeamsFromMatch 0 sd ov ko matchId = Inl RangeError"
| "getPossibleTeamsFromMatch (Suc d) sd ov ko matchId =
     (case findMatch matchId ko of
        None \<Rightarrow> Inr []
      | Some m \<Rightarrow>
          (case getOverride ov matchId of
             Some override \<Rightarrow> Inr [override]
           | None \<Rightarrow>
               if matchId \<le> 16 then
                 (case resolveBracketSlot sd (slot1 m) of
                    Inl e \<Rightarrow> Inl e
                  | Inr team1 \<Rightarrow>
                      (case resolveBracketSlot sd (slot2 m) of
                         Inl e \<Rightarrow> Inl e
                       | Inr team2 \<Rightarrow>
                           Inr ((case team1 of None \<Rightarrow> [] | Some t \<Rightarrow> [t]) @
                                (case team2 of None \<Rightarrow> [] | Some t \<Rightarrow> [t]))))
               else
                 (case prevMatches m of
                    Some ps \<Rightarrow>
                      collect (map (\<lambda>prevMatchId.
                                 getPossibleTeamsFromMatch d sd ov ko prevMatchId) ps)
                  | None \<Rightarrow> Inr [])))"

definition hasCode :: "string \<Rightarrow> bteam list \<Rightarrow> bool" where
  "hasCode teamCode possibleTeams = (\<exists>t \<in> set possibleTeams. bt_code t = teamCode)"

subsection \<open>Locking and unlocking\<close>

text \<open>The helper \<open>findTeamInRound\<close> of \<open>findUpstreamMatches\<close>.\<close>

fun findTeamInRound :: "nat \<Rightarrow> sosData \<Rightarrow> overrides \<Rightarrow> knockout \<Rightarrow> string \<Rightarrow> kmatch list \<Rightarrow>
    error + kmatch option" where
  "findTeamInRound d sd ov ko teamCode [] = Inr None"
| "findTeamInRound d sd ov ko teamCode (m # ms) =
     (case getPossibleTeamsFromMatch d sd ov ko (match m) of
        Inl e \<Rightarrow> Inl e
      | Inr possibleTeams \<Rightarrow>
          if hasCode teamCode possibleTeams then Inr (Some m)
          else findTeamInRound d sd ov ko teamCode ms)"

text \<open>The loop over the rounds, with the path found so far.\<close>

fun upstreamRounds :: "nat \<Rightarrow> sosData \<Rightarrow> overrides \<Rightarrow> knockout \<Rightarrow> string \<Rightarrow> nat \<Rightarrow>
    kmatch list list \<Rightarrow> nat list \<Rightarrow> error + nat list" where
  "upstreamRounds d sd ov ko teamCode targetMatchId [] upstreamPath = Inr upstreamPath"
| "upstreamRounds d sd ov ko teamCode targetMatchId (roundMatches # rounds) upstreamPath =
     (case findTeamInRound d sd ov ko teamCode roundMatches of
        Inl e \<Rightarrow> Inl e
      | Inr None \<Rightarrow> upstreamRounds d sd ov ko teamCode targetMatchId rounds upstreamPath
      | Inr (Some m) \<Rightarrow>
          if match m = targetMatchId then Inr (upstreamPath @ [match m])
          else upstreamRounds d sd ov ko teamCode targetMatchId rounds
                 (upstreamPath @ [match m]))"

definition findUpstreamMatches :: "nat \<Rightarrow> sosData \<Rightarrow> overrides \<Rightarrow> knockout \<Rightarrow> string \<Rightarrow> nat \<Rightarrow>
    error + nat list" where
  "findUpstreamMatches d sd ov ko teamCode targetMatchId =
     upstreamRounds d sd ov ko teamCode targetMatchId
       [r32 ko, r16 ko, qf ko, sf ko, final ko] []"

text \<open>A loop that updates a state and ends at the first exception.\<close>

fun foldE :: "('a \<Rightarrow> 's \<Rightarrow> error + 's) \<Rightarrow> 'a list \<Rightarrow> 's \<Rightarrow> error + 's" where
  "foldE f [] s = Inr s"
| "foldE f (x # xs) s = (case f x s of Inl e \<Rightarrow> Inl e | Inr s' \<Rightarrow> foldE f xs s')"

fun clearDownstreamOverrides :: "nat \<Rightarrow> knockout \<Rightarrow> nat \<Rightarrow> overrides \<Rightarrow> error + overrides" where
  "clearDownstreamOverrides 0 ko matchId ov = Inl RangeError"
| "clearDownstreamOverrides (Suc d) ko matchId ov =
     foldE (\<lambda>m ov'.
              case prevMatches m of
                Some ps \<Rightarrow>
                  if matchId \<in> set ps
                  then clearDownstreamOverrides d ko (match m) (fmdrop (match m) ov')
                  else Inr ov'
              | None \<Rightarrow> Inr ov')
       (r16 ko @ qf ko @ sf ko @ final ko) ov"

text \<open>
  \<open>handleBracketClick(matchId, team)\<close> on the override state \<open>ov\<close>; the result is the new
  state. (The redraw of the bracket at the end is not part of the model.)
\<close>

definition handleBracketClick :: "nat \<Rightarrow> sosData \<Rightarrow> overrides \<Rightarrow> nat \<Rightarrow> bteam option \<Rightarrow>
    error + overrides" where
  "handleBracketClick d sd ov matchId team =
     (case team of
        None \<Rightarrow> Inr ov
      | Some t \<Rightarrow>
          (let ko = knockout (worldCupGroups sd)
           in case findUpstreamMatches d sd ov ko (bt_code t) matchId of
                Inl e \<Rightarrow> Inl e
              | Inr upstreamPath \<Rightarrow>
                  clearDownstreamOverrides d ko matchId
                    (if (case fmlookup ov matchId of
                           None \<Rightarrow> False
                         | Some locked \<Rightarrow> bt_code locked = bt_code t)
                     then fold fmdrop upstreamPath ov
                     else fold (\<lambda>mId ov'.
                                  fmupd mId \<lparr>bt_code = bt_code t, bt_name = bt_name t,
                                             bt_elo = bt_elo t, bt_baseProb = None,
                                             bt_isThirdPlace = False, bt_winProb = None\<rparr> ov')
                            upstreamPath ov)))"

subsection \<open>Displayed occupants\<close>

text \<open>\<open>{ ...team, winProb: p }\<close>.\<close>

definition withWinProb :: "bteam \<Rightarrow> real \<Rightarrow> bteam" where
  "withWinProb t p = t\<lparr>bt_winProb := Some p\<rparr>"

definition likelierWinner :: "bteam option \<Rightarrow> bteam option \<Rightarrow> bteam option" where
  "likelierWinner team1 team2 =
     (case (team1, team2) of
        (Some t1, Some t2) \<Rightarrow>
          (let prob1 = knockoutWinProb (bt_elo t1) (bt_elo t2)
           in if prob1 \<ge> 0.5 then Some (withWinProb t1 prob1)
              else Some (withWinProb t2 (1 - prob1)))
      | _ \<Rightarrow> None)"

fun getMatchWinner :: "nat \<Rightarrow> sosData \<Rightarrow> overrides \<Rightarrow> knockout \<Rightarrow> nat option \<Rightarrow>
    error + bteam option" where
  "getMatchWinner 0 sd ov ko matchId = Inl RangeError"
| "getMatchWinner (Suc d) sd ov ko None = Inr None"
| "getMatchWinner (Suc d) sd ov ko (Some matchId) =
     (case getOverride ov matchId of
        Some override \<Rightarrow> Inr (Some override)
      | None \<Rightarrow>
          (case findMatch matchId ko of
             None \<Rightarrow> Inr None
           | Some m \<Rightarrow>
               if matchId \<le> 16 then
                 (case resolveBracketSlot sd (slot1 m) of
                    Inl e \<Rightarrow> Inl e
                  | Inr team1 \<Rightarrow>
                      (case resolveBracketSlot sd (slot2 m) of
                         Inl e \<Rightarrow> Inl e
                       | Inr team2 \<Rightarrow> Inr (likelierWinner team1 team2)))
               else
                 (case prevMatches m of
                    Some ps \<Rightarrow>
                      (case getMatchWinner d sd ov ko (js_index ps 0) of
                         Inl e \<Rightarrow> Inl e
                       | Inr prev1 \<Rightarrow>
                           (case getMatchWinner d sd ov ko (js_index ps 1) of
                              Inl e \<Rightarrow> Inl e
                            | Inr prev2 \<Rightarrow> Inr (likelierWinner prev1 prev2)))
                  | None \<Rightarrow> Inr None)))"

text \<open>\<open>getMatchTeams(match, knockout)\<close>: the two teams shown in a match.\<close>

definition getMatchTeams :: "nat \<Rightarrow> sosData \<Rightarrow> overrides \<Rightarrow> knockout \<Rightarrow> kmatch \<Rightarrow>
    error + (bteam option \<times> bteam option)" where
  "getMatchTeams d sd ov ko m =
     (if match m \<le> 16 then
        (case resolveBracketSlot sd (slot1 m) of
           Inl e \<Rightarrow> Inl e
         | Inr team1 \<Rightarrow>
             (case resolveBracketSlot sd (slot2 m) of
                Inl e \<Rightarrow> Inl e
              | Inr team2 \<Rightarrow> Inr (team1, team2)))
      else
        (case prevMatches m of
           Some ps \<Rightarrow>
             (case getMatchWinner d sd ov ko (js_index ps 0) of
                Inl e \<Rightarrow> Inl e
              | Inr team1 \<Rightarrow>
                  (case getMatchWinner d sd ov ko (js_index ps 1) of
                     Inl e \<Rightarrow> Inl e
                   | Inr team2 \<Rightarrow> Inr (team1, team2)))
         | None \<Rightarrow> Inr (None, None)))"

definition getMatchTeamsWithProb :: "nat \<Rightarrow> sosData \<Rightarrow> overrides \<Rightarrow> knockout \<Rightarrow> nat \<Rightarrow>
    error + (bteam option \<times> bteam option)" where
  "getMatchTeamsWithProb d sd ov ko matchId =
     (case findMatch matchId ko of
        None \<Rightarrow> Inr (None, None)
      | Some m \<Rightarrow> getMatchTeams d sd ov ko m)"

subsection \<open>Probabilities\<close>

text \<open>The first loop of \<open>getTeamElo\<close>, over the Round-of-32 matches.\<close>

fun r32TeamElo :: "sosData \<Rightarrow> string \<Rightarrow> kmatch list \<Rightarrow> error + real option" where
  "r32TeamElo sd teamCode [] = Inr None"
| "r32TeamElo sd teamCode (m # ms) =
     (case resolveBracketSlot sd (slot1 m) of
        Inl e \<Rightarrow> Inl e
      | Inr team1 \<Rightarrow>
          (case resolveBracketSlot sd (slot2 m) of
             Inl e \<Rightarrow> Inl e
           | Inr team2 \<Rightarrow>
               if (case team1 of None \<Rightarrow> False | Some t \<Rightarrow> bt_code t = teamCode)
               then Inr (map_option bt_elo team1)
               else if (case team2 of None \<Rightarrow> False | Some t \<Rightarrow> bt_code t = teamCode)
               then Inr (map_option bt_elo team2)
               else r32TeamElo sd teamCode ms))"

text \<open>\<open>Object.entries(bracketOverrides)\<close>, values only: ascending match ids.\<close>

definition overrideEntries :: "overrides \<Rightarrow> bteam list" where
  "overrideEntries ov = List.map_filter (fmlookup ov) (sorted_list_of_fset (fmdom ov))"

definition getTeamElo :: "sosData \<Rightarrow> overrides \<Rightarrow> knockout \<Rightarrow> string \<Rightarrow> error + real" where
  "getTeamElo sd ov ko teamCode =
     (case r32TeamElo sd teamCode (r32 ko) of
        Inl e \<Rightarrow> Inl e
      | Inr (Some e) \<Rightarrow> Inr e
      | Inr None \<Rightarrow>
          (case find (\<lambda>override. bt_code override = teamCode \<and> bt_elo override \<noteq> 0)
                  (overrideEntries ov) of
             Some override \<Rightarrow> Inr (bt_elo override)
           | None \<Rightarrow> Inr 1500))"

text \<open>
  The loop of \<open>getProbOfReaching\<close> over the predecessor matches stops at the first one
  that is locked to the team (\<open>True\<close>) or that the team can come from (\<open>False\<close>).
\<close>

fun firstPrevMatch :: "nat \<Rightarrow> sosData \<Rightarrow> overrides \<Rightarrow> knockout \<Rightarrow> string \<Rightarrow> nat list \<Rightarrow>
    error + (nat \<times> bool) option" where
  "firstPrevMatch d sd ov ko teamCode [] = Inr None"
| "firstPrevMatch d sd ov ko teamCode (prevMatchId # ps) =
     (if (case getOverride ov prevMatchId of
            None \<Rightarrow> False
          | Some prevOverride \<Rightarrow> bt_code prevOverride = teamCode)
      then Inr (Some (prevMatchId, True))
      else
        (case getPossibleTeamsFromMatch d sd ov ko prevMatchId of
           Inl e \<Rightarrow> Inl e
         | Inr possibleTeams \<Rightarrow>
             if hasCode teamCode possibleTeams then Inr (Some (prevMatchId, False))
             else firstPrevMatch d sd ov ko teamCode ps))"

text \<open>
  The first loop of \<open>getWeightedWinProb\<close>: the last predecessor match that the team
  cannot come from.
\<close>

fun opponentPrevMatch :: "nat \<Rightarrow> sosData \<Rightarrow> overrides \<Rightarrow> knockout \<Rightarrow> string \<Rightarrow> nat list \<Rightarrow>
    nat option \<Rightarrow> error + nat option" where
  "opponentPrevMatch d sd ov ko teamCode [] opponentPrevMatchId = Inr opponentPrevMatchId"
| "opponentPrevMatch d sd ov ko teamCode (prevMatchId # ps) opponentPrevMatchId =
     (case getPossibleTeamsFromMatch d sd ov ko prevMatchId of
        Inl e \<Rightarrow> Inl e
      | Inr possibleTeams \<Rightarrow>
          opponentPrevMatch d sd ov ko teamCode ps
            (if hasCode teamCode possibleTeams then opponentPrevMatchId
             else Some prevMatchId))"

text \<open>The second loop of \<open>getWeightedWinProb\<close>, over the opponents and their weights.\<close>

definition weightedAverage :: "real \<Rightarrow> (bteam \<times> real) list \<Rightarrow> real" where
  "weightedAverage teamElo weighted =
     (let totals = fold (\<lambda>(opponent, oppReachProb) (weightedProb, totalWeight).
                         if oppReachProb > 0
                         then (weightedProb + oppReachProb * knockoutWinProb teamElo (bt_elo opponent),
                               totalWeight + oppReachProb)
                         else (weightedProb, totalWeight))
                   weighted (0, 0)
      in if snd totals > 0 then fst totals / snd totals else 0.5)"

fun getCumulativeProbWin :: "nat \<Rightarrow> sosData \<Rightarrow> overrides \<Rightarrow> knockout \<Rightarrow> string \<Rightarrow> nat \<Rightarrow>
    error + real"
  and getProbOfReaching :: "nat \<Rightarrow> sosData \<Rightarrow> overrides \<Rightarrow> knockout \<Rightarrow> string \<Rightarrow> nat \<Rightarrow>
    error + real"
  and getWeightedWinProb :: "nat \<Rightarrow> sosData \<Rightarrow> overrides \<Rightarrow> knockout \<Rightarrow> string \<Rightarrow> real \<Rightarrow> nat \<Rightarrow>
    error + real" where
  "getCumulativeProbWin 0 sd ov ko teamCode matchId = Inl RangeError"
| "getCumulativeProbWin (Suc d) sd ov ko teamCode matchId =
     (case findMatch matchId ko of
        None \<Rightarrow> Inr 0
      | Some m \<Rightarrow>
          (case getOverride ov matchId of
             Some override \<Rightarrow>
               if bt_code override = teamCode
               then getProbOfReaching d sd ov ko teamCode matchId
               else Inr 0
           | None \<Rightarrow>
               (case getProbOfReaching d sd ov ko teamCode matchId of
                  Inl e \<Rightarrow> Inl e
                | Inr reachProb \<Rightarrow>
                    if reachProb = 0 then Inr 0
                    else if matchId \<le> 16 then
                      (case getMatchTeamsWithProb d sd ov ko matchId of
                         Inl e \<Rightarrow> Inl e
                       | Inr (Some team1, Some team2) \<Rightarrow>
                           (let t = (if bt_code team1 = teamCode then team1 else team2);
                                opponent = (if bt_code team1 = teamCode then team2 else team1)
                            in Inr (reachProb * knockoutWinProb (bt_elo t) (bt_elo opponent)))
                       | Inr _ \<Rightarrow> Inr reachProb)
                    else
                      (case getTeamElo sd ov ko teamCode of
                         Inl e \<Rightarrow> Inl e
                       | Inr teamElo \<Rightarrow>
                           (case getWeightedWinProb d sd ov ko teamCode teamElo matchId of
                              Inl e \<Rightarrow> Inl e
                            | Inr weightedWinProb \<Rightarrow> Inr (reachProb * weightedWinProb))))))"
| "getProbOfReaching 0 sd ov ko teamCode matchId = Inl RangeError"
| "getProbOfReaching (Suc d) sd ov ko teamCode matchId =
     (case findMatch matchId ko of
        None \<Rightarrow> Inr 0
      | Some m \<Rightarrow>
          if matchId \<le> 16 then
            (case resolveBracketSlot sd (slot1 m) of
               Inl e \<Rightarrow> Inl e
             | Inr team1 \<Rightarrow>
                 (case resolveBracketSlot sd (slot2 m) of
                    Inl e \<Rightarrow> Inl e
                  | Inr team2 \<Rightarrow>
                      if (case team1 of None \<Rightarrow> False | Some t \<Rightarrow> bt_code t = teamCode) \<or>
                         (case team2 of None \<Rightarrow> False | Some t \<Rightarrow> bt_code t = teamCode)
                      then Inr 1 else Inr 0))
          else
            (case prevMatches m of
               None \<Rightarrow> Inr 0
             | Some ps \<Rightarrow>
                 (case firstPrevMatch d sd ov ko teamCode ps of
                    Inl e \<Rightarrow> Inl e
                  | Inr None \<Rightarrow> Inr 0
                  | Inr (Some (prevMatchId, locked)) \<Rightarrow>
                      if locked then getProbOfReaching d sd ov ko teamCode prevMatchId
                      else getCumulativeProbWin d sd ov ko teamCode prevMatchId)))"
| "getWeightedWinProb 0 sd ov ko teamCode teamElo matchId = Inl RangeError"
| "getWeightedWinProb (Suc d) sd ov ko teamCode teamElo matchId =
     (case findMatch matchId ko of
        None \<Rightarrow> Inr 0.5
      | Some m \<Rightarrow>
          (case prevMatches m of
             None \<Rightarrow> Inr 0.5
           | Some ps \<Rightarrow>
               (case opponentPrevMatch d sd ov ko teamCode ps None of
                  Inl e \<Rightarrow> Inl e
                | Inr None \<Rightarrow> Inr 0.5
                | Inr (Some opponentPrevMatchId) \<Rightarrow>
                    if opponentPrevMatchId = 0 then Inr 0.5
                    else
                      (case getPossibleTeamsFromMatch d sd ov ko opponentPrevMatchId of
                         Inl e \<Rightarrow> Inl e
                       | Inr possibleOpponents \<Rightarrow>
                           if possibleOpponents = [] then Inr 0.5
                           else
                             (case collect (map (\<lambda>opponent.
                                       case getCumulativeProbWin d sd ov ko (bt_code opponent)
                                              opponentPrevMatchId of
                                         Inl e \<Rightarrow> Inl e
                                       | Inr oppReachProb \<Rightarrow> Inr [(opponent, oppReachProb)])
                                     possibleOpponents) of
                                Inl e \<Rightarrow> Inl e
                              | Inr weighted \<Rightarrow> Inr (weightedAverage teamElo weighted))))))"

section \<open>Example inputs\<close>

definition exA :: team where
  "exA = \<lparr>code = ''A'', name = ''A'', elo = 1500, isPlayoff = False\<rparr>"

definition exB :: team where
  "exB = \<lparr>code = ''B'', name = ''B'', elo = 1500, isPlayoff = False\<rparr>"

definition exC :: team where
  "exC = \<lparr>code = ''C'', name = ''C'', elo = 1500, isPlayoff = False\<rparr>"

definition exD :: team where
  "exD = \<lparr>code = ''D'', name = ''D'', elo = 1500, isPlayoff = False\<rparr>"

definition zeroTally :: simTally where
  "zeroTally = \<lparr>simPoints = (\<lambda>_. 0), simWins = (\<lambda>_. 0), simDraws = (\<lambda>_. 0),
                simLosses = (\<lambda>_. 0)\<rparr>"

definition exGroups12 :: "(string \<times> team list) list" where
  "exGroups12 = map (\<lambda>g. (g, [exA, exB, exC, exD]))
     [''A'', ''B'', ''C'', ''D'', ''E'', ''F'', ''G'', ''H'', ''I'', ''J'', ''K'', ''L'']"

definition exStanding :: "string \<Rightarrow> standing" where
  "exStanding c = \<lparr>st_code = c, st_points = 0, st_gd = 0, st_elo = 1500, st_group = None\<rparr>"

definition exStandings :: "(string \<times> standing list) list" where
  "exStandings = [(''A'', [exStanding ''A1'', exStanding ''A2'', exStanding ''A3'']),
                  (''B'', [exStanding ''B1'', exStanding ''B2'', exStanding ''B3''])]"

definition exThirds :: "standing list" where
  "exThirds = [(exStanding ''A3'')\<lparr>st_group := Some ''A''\<rparr>]"

definition exRow :: "string \<Rightarrow> real \<Rightarrow> real \<Rightarrow> posRow" where
  "exRow c p1 p2 = \<lparr>code = c, name = c, elo = 1500, isPlayoff = False,
                     pos1Prob = p1, pos2Prob = p2, pos3Prob = 0, pos4Prob = 0\<rparr>"

definition exGroupSim :: "string \<Rightarrow> posRow list option" where
  "exGroupSim = map_of
     [(''A'', [exRow ''A1'' 0.6 0.3, exRow ''A2'' 0.3 0.6]),
      (''B'', [exRow ''B1'' 0.6 0.3, exRow ''B2'' 0.3 0.6]),
      (''C'', [exRow ''C1'' 0.6 0.3, exRow ''C2'' 0.3 0.6]),
      (''D'', [exRow ''D1'' 0.6 0.3, exRow ''D2'' 0.3 0.6])]"

definition exKnockout :: knockout where
  "exKnockout = \<lparr>r32 = [SlotMatch 3 ''1A'' ''2B'', SlotMatch 4 ''1C'' ''2D''],
                  r16 = [PrevMatch 18 [3, 4]], qf = [], sf = [], final = []\<rparr>"

definition exSos :: sosData where
  "exSos = \<lparr>groupSimulation = Some exGroupSim,
             worldCupGroups = \<lparr>groups = [], knockout = exKnockout\<rparr>\<rparr>"

definition exTeam :: "string \<Rightarrow> real \<Rightarrow> bteam" where
  "exTeam c p = \<lparr>bt_code = c, bt_name = c, bt_elo = 1500, bt_baseProb = Some p,
                 bt_isThirdPlace = False, bt_winProb = None\<rparr>"

definition exLock :: "string \<Rightarrow> bteam" where
  "exLock c = \<lparr>bt_code = c, bt_name = c, bt_elo = 1500, bt_baseProb = None,
               bt_isThirdPlace = False, bt_winProb = None\<rparr>"

definition exLocked0 :: overrides where
  "exLocked0 = fmupd 18 (exLock ''C1'') (fmupd 4 (exLock ''C1'') fmempty)"
definition exLocked1 :: overrides where
  "exLocked1 = fmupd 3 (exLock ''A1'') (fmupd 4 (exLock ''C1'') fmempty)"
definition exLocked2 :: overrides where
  "exLocked2 = fmupd 4 (exLock ''C1'') fmempty"

text \<open>
  A tournament of two groups of two teams with unknown ratings; the only parameter is the
  list of Round-of-16 matches. The states below are those of its single iteration when
  every random draw is 0.
\<close>

definition exGroupData :: "kmatch list \<Rightarrow> groupData" where
  "exGroupData r16Matches =
     \<lparr>groups = [(''A'', [''A1'', ''A2'']), (''B'', [''B1'', ''B2''])],
      knockout = \<lparr>r32 = [SlotMatch 3 ''1A'' ''2B'', SlotMatch 4 ''1B'' ''2A''],
                  r16 = r16Matches, qf = [], sf = [],
                  final = [PrevMatch 31 [29, 30]]\<rparr>\<rparr>"

definition exPlainTeam :: "string \<Rightarrow> team" where
  "exPlainTeam c = \<lparr>code = c, name = c, elo = 1400, isPlayoff = False\<rparr>"

definition exPlace :: "string \<Rightarrow> nat \<Rightarrow> int \<Rightarrow> standing" where
  "exPlace c p g = \<lparr>st_code = c, st_points = p, st_gd = g, st_elo = 1400, st_group = None\<rparr>"

definition exStats1 :: teamStats where
  "exStats1 = creditStandings
     (creditStandings initialStats [exPlace ''A1'' 3 1, exPlace ''A2'' 0 (- 1)])
     [exPlace ''B1'' 3 1, exPlace ''B2'' 0 (- 1)]"

definition exStats3 :: teamStats where
  "exStats3 = creditR16 (creditR16 exStats1 ''A1'') ''B1''"

definition exWinners32 :: winners where
  "exWinners32 = [3 \<mapsto> exPlace ''A1'' 3 1, 4 \<mapsto> exPlace ''B1'' 3 1]"

text \<open>A knockout structure with a final only.\<close>

definition exFinalOnly :: knockout where
  "exFinalOnly = \<lparr>r32 = [], r16 = [], qf = [], sf = [], final = [PrevMatch 104 [101, 102]]\<rparr>"

text \<open>A playoff path of three teams rated 1800 and one team without a rating.\<close>

definition exPath :: path where
  "exPath = \<lparr>path_teams = [''A'', ''B'', ''C'', ''D'']\<rparr>"

definition exPathRatings :: ratings where
  "exPathRatings = [''A'' \<mapsto> 1800, ''B'' \<mapsto> 1800, ''C'' \<mapsto> 1800]"
section \<open>Well-formed knockout structures and round counters\<close>

text \<open>
  The group-position slots (\<open>1X\<close>, \<open>2X\<close>) that a list of Round-of-32 matches names,
  as pairs of position and group, and the ids of the earlier matches that the matches of
  a later round read their two teams from.
\<close>

definition slotKey :: "string \<Rightarrow> (nat \<times> string) list" where
  "slotKey slot =
     (case parseSlot slot of
        PosSlot p g \<Rightarrow>
          if p = Some 2 then [(2, js_key g)]
          else if p = Some 1 then [(1, js_key g)]
          else []
      | PoolSlot pool \<Rightarrow> [])"

fun matchSlotKeys :: "kmatch \<Rightarrow> (nat \<times> string) list" where
  "matchSlotKeys (SlotMatch i s1 s2) = slotKey s1 @ slotKey s2"
| "matchSlotKeys (PrevMatch i ps) = []"

definition positionSlots :: "kmatch list \<Rightarrow> (nat \<times> string) list" where
  "positionSlots ms = concat (map matchSlotKeys ms)"

definition feeds :: "kmatch list \<Rightarrow> nat list" where
  "feeds ms = concat (map (\<lambda>m. case prevMatches m of None \<Rightarrow> [] | Some ps \<Rightarrow> ps) ms)"

text \<open>The entry of the group standings that a position slot reads.\<close>

definition slotEntry :: "(string \<times> standing list) list \<Rightarrow> nat \<times> string \<Rightarrow> standing option" where
  "slotEntry S key =
     (case map_of S (snd key) of
        None \<Rightarrow> None
      | Some st \<Rightarrow> js_index st (if fst key = 2 then 1 else 0))"

text \<open>The first two entries of every group's standings.\<close>

definition topTwo :: "(string \<times> standing list) list \<Rightarrow> standing list" where
  "topTwo S = concat (map (\<lambda>gs. take 2 (snd gs)) S)"

text \<open>The six round counters of a team, from the Round of 32 to the title.\<close>

definition counters :: "tstats \<Rightarrow> nat list" where
  "counters s = [r32Count s, r16Count s, qfCount s, sfCount s, finalCount s, winCount s]"

text \<open>A credit function increments the counter at index \<open>j\<close>.\<close>

definition creditsAt :: "nat \<Rightarrow> (teamStats \<Rightarrow> string \<Rightarrow> teamStats) \<Rightarrow> bool" where
  "creditsAt j credit \<longleftrightarrow>
     (\<forall>ts c d. counters (credit ts c d) =
        (counters (ts d))[j := counters (ts d) ! j + (if d = c then 1 else 0)])"

text \<open>
  Every winner stored in a dictionary of winners was credited: the codes of the stored
  winners, one per match id, are among the credited codes \<open>W\<close>.
\<close>

definition creditedIn :: "winners \<Rightarrow> string list \<Rightarrow> bool" where
  "creditedIn w W \<longleftrightarrow>
     finite (dom w) \<and>
     image_mset (\<lambda>x. st_code (the (w x))) (mset_set (dom w)) \<subseteq># mset W"

text \<open>The counters of a team after \<open>n\<close> iterations decrease from round to round.\<close>

definition chainOK :: "nat \<Rightarrow> tstats \<Rightarrow> bool" where
  "chainOK n s \<longleftrightarrow>
     winCount s \<le> finalCount s \<and> finalCount s \<le> sfCount s \<and> sfCount s \<le> qfCount s \<and>
     qfCount s \<le> r16Count s \<and> r16Count s \<le> r32Count s \<and> r32Count s \<le> n"

text \<open>The code of a result row with its six round probabilities.\<close>

definition rowChain :: "tournamentRow \<Rightarrow> string \<times> real list" where
  "rowChain row =
     (code row, [r32Prob row, r16Prob row, qfProb row, sfProb row, finalProb row, winProb row])"

text \<open>
  The standings of the groups of one iteration: the groups are simulated in turn, each
  from the random draw at which the one before it stopped.
\<close>

fun groupRuns :: "(string \<times> team list) list \<Rightarrow> rng \<Rightarrow> nat \<Rightarrow> (string \<times> standing list) list" where
  "groupRuns [] rnd k = []"
| "groupRuns ((groupName, teams) # rest) rnd k =
     (groupName, fst (simulateGroup teams rnd k)) #
     groupRuns rest rnd (snd (simulateGroup teams rnd k))"
section \<open>Properties of the helpers\<close>

lemma mset_js_insort: "mset (js_insort cmp x ys) = add_mset x (mset ys)"
  by (induction ys) simp_all

lemma mset_js_sort: "mset (js_sort cmp xs) = mset xs"
  by (induction xs) (simp_all add: js_sort_def mset_js_insort)

lemma set_js_sort: "set (js_sort cmp xs) = set xs"
  using mset_js_sort [of cmp xs] by (metis set_mset_mset)

lemma length_js_sort: "length (js_sort cmp xs) = length xs"
  using mset_js_sort [of cmp xs] by (metis size_mset)

lemma sum_list_js_sort:
  fixes f :: "'a \<Rightarrow> real"
  shows "sum_list (map f (js_sort cmp xs)) = sum_list (map f xs)"
proof -
  have "sum_mset (image_mset f (mset (js_sort cmp xs))) = sum_mset (image_mset f (mset xs))"
    by (simp add: mset_js_sort)
  then show ?thesis
    by (simp add: sum_mset_sum_list flip: mset_map)
qed

lemma eloWinProbability_compl: "eloWinProbability a b + eloWinProbability b a = 1"
proof -
  define x where "x = 10 powr ((b - a) / 400)"
  have pos: "0 < x" by (simp add: x_def)
  have "(a - b) / 400 = - ((b - a) / 400)" by argo
  then have "10 powr ((a - b) / 400) = 10 powr (- ((b - a) / 400))" by (rule arg_cong)
  then have inv: "10 powr ((a - b) / 400) = 1 / x"
    unfolding x_def powr_minus by (simp add: field_simps)
  have "1 / (1 + x) + 1 / (1 + 1 / x) = 1"
    using pos by (simp add: field_simps)
  then show ?thesis
    by (simp add: eloWinProbability_def inv flip: x_def)
qed

lemma set_js_insort: "set (js_insort cmp x ys) = insert x (set ys)"
  using mset_js_insort [of cmp x ys] by (metis set_mset_add_mset_insert set_mset_mset)

lemma js_sort_Cons: "js_sort cmp (x # xs) = js_insort cmp x (js_sort cmp xs)"
  by (simp add: js_sort_def)

lemma js_insort_sorted:
  assumes total: "\<And>x y. cmp x y \<le> 0 \<or> cmp y x \<le> 0"
    and trans: "\<And>x y z. cmp x y \<le> 0 \<Longrightarrow> cmp y z \<le> 0 \<Longrightarrow> cmp x z \<le> 0"
  shows "sorted_wrt (\<lambda>x y. cmp x y \<le> 0) ys \<Longrightarrow>
         sorted_wrt (\<lambda>x y. cmp x y \<le> 0) (js_insort cmp x ys)"
proof (induction ys)
  case Nil
  then show ?case by simp
next
  case (Cons y ys)
  show ?case
  proof (cases "cmp x y \<le> 0")
    case True
    with Cons.prems trans show ?thesis by auto
  next
    case False
    with total have yx: "cmp y x \<le> 0" by blast
    with False Cons show ?thesis by (auto simp: set_js_insort)
  qed
qed

lemma sorted_js_sort:
  assumes total: "\<And>x y. cmp x y \<le> 0 \<or> cmp y x \<le> 0"
    and trans: "\<And>x y z. cmp x y \<le> 0 \<Longrightarrow> cmp y z \<le> 0 \<Longrightarrow> cmp x z \<le> 0"
  shows "sorted_wrt (\<lambda>x y. cmp x y \<le> 0) (js_sort cmp xs)"
proof (induction xs)
  case Nil
  show ?case by (simp add: js_sort_def)
next
  case (Cons x xs)
  with js_insort_sorted [OF total trans] show ?case by (simp add: js_sort_Cons)
qed




lemma indexPairs_3: "indexPairs (Suc (Suc (Suc 0))) = [(0, 1), (0, 2), (1, 2)]"
  by (simp add: indexPairs_def numeral_eq_Suc)

lemma byStanding_total: "byStanding x y \<le> 0 \<or> byStanding y x \<le> 0"
  by (auto simp: byStanding_def)

lemma byStanding_trans:
  "byStanding x y \<le> 0 \<Longrightarrow> byStanding y z \<le> 0 \<Longrightarrow> byStanding x z \<le> 0"
  by (auto simp: byStanding_def split: if_splits)

lemma byStanding_le:
  "byStanding a b \<le> 0 \<longleftrightarrow>
     st_points b < st_points a \<or>
     st_points a = st_points b \<and>
       (st_gd b < st_gd a \<or> st_gd a = st_gd b \<and> st_elo b \<le> st_elo a)"
  by (auto simp: byStanding_def)

lemma sorted_byStanding:
  "sorted_wrt (\<lambda>a b. st_points b < st_points a \<or>
       st_points a = st_points b \<and>
         (st_gd b < st_gd a \<or> st_gd a = st_gd b \<and> st_elo b \<le> st_elo a))
     (js_sort byStanding xs)"
  using sorted_js_sort [of byStanding xs, OF byStanding_total byStanding_trans]
  by (simp add: byStanding_le)

section \<open>Properties of the group stage helpers\<close>

lemma map_fst_js_modify: "map fst (js_modify kvs k f) = map fst kvs"
  by (induction kvs) (auto simp: js_modify_def)

lemma map_fst_groupResult: "map fst (groupResult stats ti tj r) = map fst stats"
  by (cases r) (simp_all add: groupResult_def map_fst_js_modify)

lemma map_fst_playGroup: "map fst (playGroup teams ps rnd k stats) = map fst stats"
  by (induction teams ps rnd k stats rule: playGroup.induct) (simp_all add: map_fst_groupResult)

lemma map_fst_js_put:
  "map fst (js_put kvs k v) = (if k \<in> fst ` set kvs then map fst kvs else map fst kvs @ [k])"
  by (induction kvs) (auto simp: rev_image_eqI)

lemma set_fst_js_put: "set (map fst (js_put kvs k v)) = insert k (set (map fst kvs))"
  by (auto simp: map_fst_js_put)

lemma distinct_js_put: "distinct (map fst kvs) \<Longrightarrow> distinct (map fst (js_put kvs k v))"
  by (simp add: map_fst_js_put)

lemma initGroupStats_keys_aux:
  "distinct (map fst acc) \<Longrightarrow>
   distinct (map fst (fold (\<lambda>team stats. js_put stats (code team) (f team)) teams acc)) \<and>
   set (map fst (fold (\<lambda>team stats. js_put stats (code team) (f team)) teams acc)) =
     set (map fst acc) \<union> set (map code teams)"
proof (induction teams arbitrary: acc)
  case Nil
  then show ?case by simp
next
  case (Cons t teams)
  from Cons.prems have d: "distinct (map fst (js_put acc (code t) (f t)))"
    by (rule distinct_js_put)
  from Cons.IH [OF d] show ?case
    using set_fst_js_put [of acc "code t" "f t"] by auto
qed

lemma length_initGroupStats: "length (initGroupStats teams) = length (remdups (map code teams))"
proof -
  have d: "distinct (map fst (initGroupStats teams))"
    and s: "set (map fst (initGroupStats teams)) = set (map code teams)"
    using initGroupStats_keys_aux [of "[]" "\<lambda>team. \<lparr>g_points = 0, g_gd = 0, g_elo = elo team\<rparr>" teams]
    by (simp_all add: initGroupStats_def)
  have "length (initGroupStats teams) = length (map fst (initGroupStats teams))" by simp
  also have "\<dots> = card (set (map fst (initGroupStats teams)))"
    using d by (simp only: distinct_card)
  also have "\<dots> = length (remdups (map code teams))"
    by (simp only: s length_remdups_card_conv)
  finally show ?thesis .
qed

lemma mset_js_entries: "mset (js_entries kvs) = mset kvs"
  by (simp add: js_entries_def)

lemma length_js_entries: "length (js_entries kvs) = length kvs"
  using mset_js_entries [of kvs] by (metis size_mset)

lemma length_simulateGroup:
  "length (fst (simulateGroup teams rnd k)) = length (remdups (map code teams))"
proof -
  have "length (playGroup teams (indexPairs (length teams)) rnd k (initGroupStats teams)) =
        length (initGroupStats teams)"
    using map_fst_playGroup [of teams "indexPairs (length teams)" rnd k "initGroupStats teams"]
    by (metis length_map)
  then show ?thesis
    by (simp add: simulateGroup_def Let_def length_js_sort length_js_entries length_initGroupStats)
qed

lemma simulateGroups_thirds:
  assumes "\<forall>(g, teams) \<in> set gts. 3 \<le> length (remdups (map code teams))"
  shows "map st_group (fst (snd (simulateGroups gts rnd k gs th ts))) =
         map st_group th @ map (\<lambda>(g, teams). Some g) gts"
  using assms
proof (induction gts arbitrary: k gs th ts)
  case Nil
  show ?case by simp
next
  case (Cons gt gts)
  obtain g teams where gt: "gt = (g, teams)" by (cases gt)
  from Cons.prems gt have "3 \<le> length (fst (simulateGroup teams rnd k))"
    by (simp add: length_simulateGroup)
  then obtain s where s: "js_index (fst (simulateGroup teams rnd k)) 2 = Some s"
    by (simp add: js_index_def)
  from Cons.prems have rest: "\<forall>(g, teams) \<in> set gts. 3 \<le> length (remdups (map code teams))"
    by simp
  show ?case
    by (simp add: gt Let_def s Cons.IH [OF rest])
qed

lemma r32Count_creditR32:
  "r32Count (creditR32 ts c d) = r32Count (ts d) + (if d = c then 1 else 0)"
  by (simp add: creditR32_def)

lemma r32Count_markThirds:
  "r32Count (markThirds ts q c) = r32Count (ts c) + count_list (map st_code q) c"
  unfolding markThirds_def
  by (induction q arbitrary: ts) (auto simp: r32Count_creditR32)

lemma sorted_wrt_take_drop:
  assumes "sorted_wrt R xs"
  shows "\<forall>a \<in> set (take n xs). \<forall>b \<in> set (drop n xs). R a b"
proof -
  from assms have "sorted_wrt R (take n xs @ drop n xs)" by simp
  then show ?thesis unfolding sorted_wrt_append by blast
qed

section \<open>Properties of the interactive bracket\<close>

lemma possible_other_r32:
  assumes "k \<noteq> M" and "k \<le> 16"
  shows "getPossibleTeamsFromMatch d sd (fmupd M t ov) ko k = getPossibleTeamsFromMatch d sd ov ko k"
  using assms by (cases d) (auto simp: getOverride_def split: option.splits)

lemma possible_locked:
  assumes "findMatch M ko = Some m"
  shows "getPossibleTeamsFromMatch (Suc d) sd (fmupd M t ov) ko M = Inr [t]"
  using assms by (simp add: getOverride_def)

lemma findTeamInRound_mem:
  "findTeamInRound d sd ov ko c ms = Inr (Some m) \<Longrightarrow> m \<in> set ms"
  by (induction ms) (auto split: sum.splits if_splits)

lemma findTeamInRound_hit:
  "findTeamInRound d sd ov ko c ms = Inr (Some m) \<Longrightarrow>
   \<exists>ts. getPossibleTeamsFromMatch d sd ov ko (match m) = Inr ts \<and> hasCode c ts"
  by (induction ms) (auto split: sum.splits if_splits)

lemma findMatch_mem:
  assumes "m \<in> set (allMatches ko)"
  shows "\<exists>m'. findMatch (match m) ko = Some m'"
proof -
  have "find (\<lambda>x. match x = match m) (allMatches ko) \<noteq> None"
    using assms by (auto simp: find_None_iff)
  then show ?thesis by (auto simp: findMatch_def)
qed

lemma findTeamInRound_relock:
  assumes "findTeamInRound d sd ov ko c ms = Inr (Some m)"
    and "match m = M"
    and "\<forall>x \<in> set ms. match x \<le> 16"
    and "set ms \<subseteq> set (allMatches ko)"
    and "bt_code t = c"
  shows "\<exists>m'. findTeamInRound d sd (fmupd M t ov) ko c ms = Inr (Some m') \<and> match m' = M"
  using assms
proof (induction ms)
  case Nil
  then show ?case by simp
next
  case (Cons x ms)
  from Cons.prems(1) obtain ts where ts: "getPossibleTeamsFromMatch d sd ov ko (match x) = Inr ts"
    by (auto split: sum.splits)
  then obtain d' where d: "d = Suc d'" by (cases d) auto
  from findTeamInRound_hit [OF Cons.prems(1)] Cons.prems(2)
  obtain tsM where tsM: "getPossibleTeamsFromMatch d sd ov ko M = Inr tsM" "hasCode c tsM"
    by auto
  from findTeamInRound_mem [OF Cons.prems(1)] Cons.prems(4)
  have "m \<in> set (allMatches ko)" by auto
  from findMatch_mem [OF this] Cons.prems(2) obtain mm where mm: "findMatch M ko = Some mm"
    by auto
  have locked: "getPossibleTeamsFromMatch d sd (fmupd M t ov) ko M = Inr [t]"
    unfolding d using mm by (rule possible_locked)
  show ?case
  proof (cases "match x = M")
    case True
    then show ?thesis
      using locked Cons.prems(5) by (simp add: hasCode_def)
  next
    case False
    from Cons.prems(3) have "match x \<le> 16" by simp
    with False have same: "getPossibleTeamsFromMatch d sd (fmupd M t ov) ko (match x) = Inr ts"
      by (simp add: possible_other_r32 ts)
    show ?thesis
    proof (cases "hasCode c ts")
      case True
      with Cons.prems(1) ts have "m = x" by simp
      with Cons.prems(2) False show ?thesis by simp
    next
      case nh: False
      with Cons.prems(1) ts have rest: "findTeamInRound d sd ov ko c ms = Inr (Some m)" by simp
      from Cons.IH [OF rest Cons.prems(2)] Cons.prems(3,4,5)
      obtain m' where "findTeamInRound d sd (fmupd M t ov) ko c ms = Inr (Some m')" "match m' = M"
        by auto
      with same nh show ?thesis by simp
    qed
  qed
qed

lemma upstreamRounds_prefix:
  "upstreamRounds d sd ov ko c M rounds acc = Inr p \<Longrightarrow>
   \<exists>s. p = acc @ s \<and> set s \<subseteq> match ` set (concat rounds)"
proof (induction rounds arbitrary: acc)
  case Nil
  then show ?case by simp
next
  case (Cons r rounds)
  show ?case
  proof (cases "findTeamInRound d sd ov ko c r")
    case (Inl e)
    with Cons.prems show ?thesis by simp
  next
    case (Inr res)
    show ?thesis
    proof (cases res)
      case None
      with Inr Cons.prems have "upstreamRounds d sd ov ko c M rounds acc = Inr p" by simp
      from Cons.IH [OF this] obtain s where s: "p = acc @ s"
        "set s \<subseteq> match ` set (concat rounds)" by blast
      have mono: "match ` set (concat rounds) \<subseteq> match ` set (concat (r # rounds))"
        by (simp add: image_Un)
      from s(2) mono have "set s \<subseteq> match ` set (concat (r # rounds))" by (rule order_trans)
      with s(1) show ?thesis by blast
    next
      case (Some m)
      with Inr have mem: "m \<in> set r" by (simp add: findTeamInRound_mem)
      show ?thesis
      proof (cases "match m = M")
        case True
        with Some Inr Cons.prems have "p = acc @ [match m]" by simp
        moreover have "set [match m] \<subseteq> match ` set (concat (r # rounds))"
          using mem by simp
        ultimately show ?thesis by blast
      next
        case False
        with Some Inr Cons.prems
        have "upstreamRounds d sd ov ko c M rounds (acc @ [match m]) = Inr p" by simp
        from Cons.IH [OF this] obtain s where s: "p = (acc @ [match m]) @ s"
          "set s \<subseteq> match ` set (concat rounds)" by blast
        have mono: "match ` set (concat rounds) \<subseteq> match ` set (concat (r # rounds))"
          by (simp add: image_Un)
        from s(2) mono have "set s \<subseteq> match ` set (concat (r # rounds))"
          by (rule order_trans)
        with mem have "set (match m # s) \<subseteq> match ` set (concat (r # rounds))"
          by simp
        moreover from s(1) have "p = acc @ (match m # s)" by simp
        ultimately show ?thesis by blast
      qed
    qed
  qed
qed

lemma upstream_relock:
  assumes path: "findUpstreamMatches d sd ov ko c M = Inr [M]"
    and r32: "\<forall>m \<in> set (r32 ko). match m \<le> 16"
    and later: "\<forall>m \<in> set (r16 ko @ qf ko @ sf ko @ final ko). 16 < match m"
    and M: "M \<le> 16"
    and code: "bt_code t = c"
  shows "findUpstreamMatches d sd (fmupd M t ov) ko c M = Inr [M]"
proof (cases "findTeamInRound d sd ov ko c (r32 ko)")
  case (Inl e)
  with path show ?thesis by (simp add: findUpstreamMatches_def)
next
  case (Inr res)
  show ?thesis
  proof (cases res)
    case None
    with Inr path have "upstreamRounds d sd ov ko c M [r16 ko, qf ko, sf ko, final ko] [] = Inr [M]"
      by (simp add: findUpstreamMatches_def)
    from upstreamRounds_prefix [OF this]
    have "M \<in> match ` set (concat [r16 ko, qf ko, sf ko, final ko])" by auto
    then obtain x where "x \<in> set (r16 ko @ qf ko @ sf ko @ final ko)" "match x = M" by auto
    with later M show ?thesis by fastforce
  next
    case (Some m)
    have "match m = M"
    proof (rule ccontr)
      assume ne: "match m \<noteq> M"
      with Some Inr path
      have "upstreamRounds d sd ov ko c M [r16 ko, qf ko, sf ko, final ko] [match m] = Inr [M]"
        by (simp add: findUpstreamMatches_def)
      from upstreamRounds_prefix [OF this] ne show False by auto
    qed
    have sub: "set (r32 ko) \<subseteq> set (allMatches ko)" by (auto simp: allMatches_def)
    from findTeamInRound_relock [OF Inr [unfolded Some] \<open>match m = M\<close> r32 sub code]
    obtain m' where "findTeamInRound d sd (fmupd M t ov) ko c (r32 ko) = Inr (Some m')" "match m' = M"
      by auto
    then show ?thesis by (simp add: findUpstreamMatches_def)
  qed
qed

lemma foldE_uniform:
  assumes "\<And>x. x \<in> set xs \<Longrightarrow>
      (\<exists>D. D \<subseteq> S \<and> (\<forall>s. f x s = Inr (fmfilter (\<lambda>k. k \<notin> D) s))) \<or> (\<exists>e. \<forall>s. f x s = Inl e)"
  shows "(\<exists>D. D \<subseteq> S \<and> (\<forall>s. foldE f xs s = Inr (fmfilter (\<lambda>k. k \<notin> D) s))) \<or>
         (\<exists>e. \<forall>s. foldE f xs s = Inl e)"
  using assms
proof (induction xs)
  case Nil
  have "\<forall>s. foldE f [] s = Inr (fmfilter (\<lambda>k. k \<notin> {}) s)" by simp
  then show ?case by blast
next
  case (Cons x xs)
  from Cons.prems have rest: "\<And>y. y \<in> set xs \<Longrightarrow>
      (\<exists>D. D \<subseteq> S \<and> (\<forall>s. f y s = Inr (fmfilter (\<lambda>k. k \<notin> D) s))) \<or> (\<exists>e. \<forall>s. f y s = Inl e)"
    by simp
  from Cons.prems [of x]
  consider (ok) D where "D \<subseteq> S" "\<forall>s. f x s = Inr (fmfilter (\<lambda>k. k \<notin> D) s)"
    | (err) e where "\<forall>s. f x s = Inl e" by auto
  then show ?case
  proof cases
    case err
    then have "\<forall>s. foldE f (x # xs) s = Inl e" by simp
    then show ?thesis by blast
  next
    case ok
    from Cons.IH [OF rest]
    consider (ok2) D2 where "D2 \<subseteq> S" "\<forall>s. foldE f xs s = Inr (fmfilter (\<lambda>k. k \<notin> D2) s)"
      | (err2) e where "\<forall>s. foldE f xs s = Inl e" by auto
    then show ?thesis
    proof cases
      case err2
      with ok have "\<forall>s. foldE f (x # xs) s = Inl e" by simp
      then show ?thesis by blast
    next
      case ok2
      have "\<forall>s. foldE f (x # xs) s = Inr (fmfilter (\<lambda>k. k \<notin> D \<union> D2) s)"
      proof
        fix s
        have "foldE f (x # xs) s = Inr (fmfilter (\<lambda>k. k \<notin> D2) (fmfilter (\<lambda>k. k \<notin> D) s))"
          using ok ok2 by simp
        also have "fmfilter (\<lambda>k. k \<notin> D2) (fmfilter (\<lambda>k. k \<notin> D) s) = fmfilter (\<lambda>k. k \<notin> D \<union> D2) s"
          by (simp add: fmfilter_comp conj_commute)
        finally show "foldE f (x # xs) s = Inr (fmfilter (\<lambda>k. k \<notin> D \<union> D2) s)" .
      qed
      moreover from ok ok2 have "D \<union> D2 \<subseteq> S" by simp
      ultimately show ?thesis by blast
    qed
  qed
qed

lemma clearDownstream_uniform:
  "(\<exists>D. D \<subseteq> match ` set (r16 ko @ qf ko @ sf ko @ final ko) \<and>
        (\<forall>ov. clearDownstreamOverrides d ko M ov = Inr (fmfilter (\<lambda>k. k \<notin> D) ov))) \<or>
   (\<exists>e. \<forall>ov. clearDownstreamOverrides d ko M ov = Inl e)"
proof (induction d arbitrary: M)
  case 0
  have "\<forall>ov. clearDownstreamOverrides 0 ko M ov = Inl RangeError" by simp
  then show ?case by blast
next
  case (Suc d)
  let ?S = "match ` set (r16 ko @ qf ko @ sf ko @ final ko)"
  let ?f = "\<lambda>m ov'. case prevMatches m of
                Some ps \<Rightarrow>
                  if M \<in> set ps
                  then clearDownstreamOverrides d ko (match m) (fmdrop (match m) ov')
                  else Inr ov'
              | None \<Rightarrow> Inr ov'"
  have step: "(\<exists>D. D \<subseteq> ?S \<and> (\<forall>s. ?f x s = Inr (fmfilter (\<lambda>k. k \<notin> D) s))) \<or> (\<exists>e. \<forall>s. ?f x s = Inl e)"
    if x: "x \<in> set (r16 ko @ qf ko @ sf ko @ final ko)" for x
  proof (cases "prevMatches x")
    case None
    then have "\<forall>s. ?f x s = Inr (fmfilter (\<lambda>k. k \<notin> {}) s)" by simp
    then show ?thesis by blast
  next
    case (Some ps)
    show ?thesis
    proof (cases "M \<in> set ps")
      case False
      with Some have "\<forall>s. ?f x s = Inr (fmfilter (\<lambda>k. k \<notin> {}) s)" by simp
      then show ?thesis by blast
    next
      case True
      from Suc.IH [of "match x"]
      consider (ok) D where "D \<subseteq> ?S"
          "\<forall>ov. clearDownstreamOverrides d ko (match x) ov = Inr (fmfilter (\<lambda>k. k \<notin> D) ov)"
        | (err) e where "\<forall>ov. clearDownstreamOverrides d ko (match x) ov = Inl e" by auto
      then show ?thesis
      proof cases
        case err
        with Some True have "\<forall>s. ?f x s = Inl e" by simp
        then show ?thesis by blast
      next
        case ok
        have "\<forall>s. ?f x s = Inr (fmfilter (\<lambda>k. k \<notin> insert (match x) D) s)"
        proof
          fix s
          have "?f x s = Inr (fmfilter (\<lambda>k. k \<notin> D) (fmdrop (match x) s))"
            using ok Some True by simp
          also have "fmfilter (\<lambda>k. k \<notin> D) (fmdrop (match x) s) =
              fmfilter (\<lambda>k. k \<notin> insert (match x) D) s"
            by (rule fmap_ext) simp
          finally show "?f x s = Inr (fmfilter (\<lambda>k. k \<notin> insert (match x) D) s)" .
        qed
        moreover from ok x have "insert (match x) D \<subseteq> ?S" by simp
        ultimately show ?thesis by blast
      qed
    qed
  qed
  from foldE_uniform [of "r16 ko @ qf ko @ sf ko @ final ko" ?S ?f, OF step]
  show ?case by simp
qed

lemma clearDownstream_keeps:
  assumes fixed: "clearDownstreamOverrides d ko M ov = Inr ov"
    and k: "k \<notin> match ` set (r16 ko @ qf ko @ sf ko @ final ko)"
  shows "clearDownstreamOverrides d ko M (fmupd k t ov) = Inr (fmupd k t ov)"
proof -
  from clearDownstream_uniform [of ko d M] fixed
  obtain D where D: "D \<subseteq> match ` set (r16 ko @ qf ko @ sf ko @ final ko)"
    "\<forall>ov. clearDownstreamOverrides d ko M ov = Inr (fmfilter (\<lambda>k. k \<notin> D) ov)"
    by (metis sum.distinct(1))
  from D(2) fixed have same: "fmfilter (\<lambda>k. k \<notin> D) ov = ov" by simp
  from D(1) k have "k \<notin> D" by blast
  then have "fmfilter (\<lambda>k. k \<notin> D) (fmupd k t ov) = fmupd k t (fmfilter (\<lambda>k. k \<notin> D) ov)"
    by simp
  with D(2) same show ?thesis by simp
qed

lemma ex_slot_1A: "resolveBracketSlot exSos (Some ''1A'') = Inr (Some (exTeam ''A1'' 0.6))"
  by (simp add: resolveBracketSlot_def exRow_def exGroupSim_def exKnockout_def exSos_def exTeam_def exLock_def js_index_def parseInt1_def is_digit_def digit_value_def js_key_def
      js_sort_def byPos1Desc_def byPos2Desc_def Let_def)
lemma ex_slot_2B: "resolveBracketSlot exSos (Some ''2B'') = Inr (Some (exTeam ''B2'' 0.6))"
  by (simp add: resolveBracketSlot_def exRow_def exGroupSim_def exKnockout_def exSos_def exTeam_def exLock_def js_index_def parseInt1_def is_digit_def digit_value_def js_key_def
      js_sort_def byPos1Desc_def byPos2Desc_def Let_def)
lemma ex_slot_1C: "resolveBracketSlot exSos (Some ''1C'') = Inr (Some (exTeam ''C1'' 0.6))"
  by (simp add: resolveBracketSlot_def exRow_def exGroupSim_def exKnockout_def exSos_def exTeam_def exLock_def js_index_def parseInt1_def is_digit_def digit_value_def js_key_def
      js_sort_def byPos1Desc_def byPos2Desc_def Let_def)
lemma ex_slot_2D: "resolveBracketSlot exSos (Some ''2D'') = Inr (Some (exTeam ''D2'' 0.6))"
  by (simp add: resolveBracketSlot_def exRow_def exGroupSim_def exKnockout_def exSos_def exTeam_def exLock_def js_index_def parseInt1_def is_digit_def digit_value_def js_key_def
      js_sort_def byPos1Desc_def byPos2Desc_def Let_def)

lemma ex_find_3: "findMatch 3 exKnockout = Some (SlotMatch 3 ''1A'' ''2B'')"
  by (simp add: findMatch_def allMatches_def exKnockout_def)
lemma ex_find_4: "findMatch 4 exKnockout = Some (SlotMatch 4 ''1C'' ''2D'')"
  by (simp add: findMatch_def allMatches_def exKnockout_def)
lemma ex_find_18: "findMatch 18 exKnockout = Some (PrevMatch 18 [3, 4])"
  by (simp add: findMatch_def allMatches_def exKnockout_def)

lemma ex_possible_3: "fmlookup ov 3 = None \<Longrightarrow> getPossibleTeamsFromMatch (Suc d) exSos ov exKnockout 3 = Inr [exTeam ''A1'' 0.6, exTeam ''B2'' 0.6]"
  by (simp add: ex_find_3 getOverride_def ex_slot_1A ex_slot_2B)
lemma ex_possible_4: "fmlookup ov 4 = None \<Longrightarrow> getPossibleTeamsFromMatch (Suc d) exSos ov exKnockout 4 = Inr [exTeam ''C1'' 0.6, exTeam ''D2'' 0.6]"
  by (simp add: ex_find_4 getOverride_def ex_slot_1C ex_slot_2D)
lemma ex_possible_4_locked: "fmlookup ov 4 = Some t \<Longrightarrow> getPossibleTeamsFromMatch (Suc d) exSos ov exKnockout 4 = Inr [t]"
  by (simp add: ex_find_4 getOverride_def)
lemma ex_possible_18_locked: "fmlookup ov 18 = Some t \<Longrightarrow> getPossibleTeamsFromMatch (Suc d) exSos ov exKnockout 18 = Inr [t]"
  by (simp add: ex_find_18 getOverride_def)

lemma ex_path_0: "findUpstreamMatches (Suc d) exSos exLocked0 exKnockout ''A1'' 3 = Inr [3]"
  by (simp add: findUpstreamMatches_def exKnockout_def[THEN arg_cong[of _ _ r32]] ex_possible_3 exLocked0_def hasCode_def exTeam_def
       del: getPossibleTeamsFromMatch.simps)

lemma ex_path_1: "findUpstreamMatches (Suc d) exSos exLocked1 exKnockout ''A1'' 3 = Inr [3]"
  by (simp add: findUpstreamMatches_def exKnockout_def[THEN arg_cong[of _ _ r32]] ex_find_3 getOverride_def exLocked1_def hasCode_def exLock_def)

lemma ex_clear_3: "clearDownstreamOverrides (Suc (Suc d)) exKnockout 3 ov = Inr (fmdrop 18 ov)"
  by (simp add: exKnockout_def)

lemma ex_click_1: "handleBracketClick (Suc (Suc 0)) exSos exLocked0 3 (Some (exTeam ''A1'' 0.6)) = Inr exLocked1"
proof -
  have k: "knockout (worldCupGroups exSos) = exKnockout" by (simp add: exSos_def)
  have c: "\<And>p. bt_code (exTeam ''A1'' p) = ''A1''" by (simp add: exTeam_def)
  have l: "fmlookup exLocked0 3 = None" by (simp add: exLocked0_def)
  show ?thesis
    unfolding handleBracketClick_def
    by (simp add: Let_def k c l ex_path_0 ex_clear_3 del: clearDownstreamOverrides.simps) (simp add: exLocked0_def exLocked1_def exTeam_def exLock_def fmdrop_fmupd)
qed

lemma ex_click_2: "handleBracketClick (Suc (Suc 0)) exSos exLocked1 3 (Some (exTeam ''A1'' 0.6)) = Inr exLocked2"
proof -
  have k: "knockout (worldCupGroups exSos) = exKnockout" by (simp add: exSos_def)
  have c: "\<And>p. bt_code (exTeam ''A1'' p) = ''A1''" by (simp add: exTeam_def)
  have l: "fmlookup exLocked1 3 = Some (exLock ''A1'')" by (simp add: exLocked1_def)
  have c2: "bt_code (exLock ''A1'') = ''A1''" by (simp add: exLock_def)
  show ?thesis
    unfolding handleBracketClick_def
    by (simp add: Let_def k c l c2 ex_path_1 ex_clear_3 del: clearDownstreamOverrides.simps) (simp add: exLocked2_def exLocked1_def fmdrop_fmupd)
qed

lemma ex_cum_before: "getCumulativeProbWin (Suc (Suc (Suc (Suc (Suc 0))))) exSos exLocked0 exKnockout ''C1'' 18 = Inr 1"
  by (simp add: ex_find_18 ex_find_4 ex_find_3 getOverride_def exLocked0_def exLock_def ex_slot_1A ex_slot_2B ex_slot_1C ex_slot_2D hasCode_def exTeam_def)

lemma ex_cum_after: "getCumulativeProbWin (Suc (Suc (Suc (Suc (Suc 0))))) exSos exLocked2 exKnockout ''C1'' 18 = Inr (1 / 2)"
  by (simp add: ex_find_18 ex_find_4 ex_find_3 getOverride_def exLocked2_def exLock_def ex_slot_1A ex_slot_2B ex_slot_1C ex_slot_2D hasCode_def exTeam_def
      getTeamElo_def exKnockout_def[THEN arg_cong[of _ _ r32]] getMatchTeamsWithProb_def getMatchTeams_def
      knockoutWinProb_def weightedAverage_def)

lemma findTeamInRound_none:
  assumes "\<forall>m \<in> set ms. \<exists>ts. getPossibleTeamsFromMatch d sd ov ko (match m) = Inr ts \<and> \<not> hasCode c ts"
  shows "findTeamInRound d sd ov ko c ms = Inr None"
  using assms by (induction ms) auto

lemma upstreamRounds_none:
  assumes "\<forall>r \<in> set rounds. findTeamInRound d sd ov ko c r = Inr None"
  shows "upstreamRounds d sd ov ko c M rounds acc = Inr acc"
  using assms by (induction rounds arbitrary: acc) auto

lemma findUpstreamMatches_none:
  assumes "\<forall>m \<in> set (allMatches ko). \<exists>ts. getPossibleTeamsFromMatch d sd ov ko (match m) = Inr ts \<and> \<not> hasCode c ts"
  shows "findUpstreamMatches d sd ov ko c M = Inr []"
proof -
  have "findTeamInRound d sd ov ko c r = Inr None"
    if "r \<in> set [r32 ko, r16 ko, qf ko, sf ko, final ko]" for r
  proof (rule findTeamInRound_none)
    from that have "set r \<subseteq> set (allMatches ko)" by (auto simp: allMatches_def)
    with assms show "\<forall>m \<in> set r. \<exists>ts. getPossibleTeamsFromMatch d sd ov ko (match m) = Inr ts \<and> \<not> hasCode c ts"
      by blast
  qed
  then show ?thesis
    unfolding findUpstreamMatches_def by (intro upstreamRounds_none) blast
qed

lemma clearDownstream_result:
  assumes "clearDownstreamOverrides d ko M ov = Inr ov'"
  shows "(\<forall>k. k \<notin> match ` set (r16 ko @ qf ko @ sf ko @ final ko) \<longrightarrow> fmlookup ov' k = fmlookup ov k) \<and>
         (\<forall>k. fmlookup ov' k = fmlookup ov k \<or> fmlookup ov' k = None)"
proof -
  from clearDownstream_uniform [of ko d M] assms
  obtain D where D: "D \<subseteq> match ` set (r16 ko @ qf ko @ sf ko @ final ko)"
    "\<forall>ov. clearDownstreamOverrides d ko M ov = Inr (fmfilter (\<lambda>k. k \<notin> D) ov)"
    by (metis sum.distinct(1))
  from D(2) assms have "ov' = fmfilter (\<lambda>k. k \<notin> D) ov" by simp
  with D(1) show ?thesis by auto
qed

lemma ex_ko: "knockout (worldCupGroups exSos) = exKnockout" by (simp add: exSos_def)

lemma ex_r32: "r32 exKnockout = [SlotMatch 3 ''1A'' ''2B'', SlotMatch 4 ''1C'' ''2D'']"
  by (simp add: exKnockout_def)

lemma ex_later: "r16 exKnockout @ qf exKnockout @ sf exKnockout @ final exKnockout = [PrevMatch 18 [3, 4]]"
  by (simp add: exKnockout_def)

lemma ex_all: "allMatches exKnockout = [SlotMatch 3 ''1A'' ''2B'', SlotMatch 4 ''1C'' ''2D'', PrevMatch 18 [3, 4]]"
  by (simp add: exKnockout_def allMatches_def)

lemma ex_possible_18: "fmlookup ov 3 = None \<Longrightarrow> fmlookup ov 4 = None \<Longrightarrow> fmlookup ov 18 = None \<Longrightarrow>
   getPossibleTeamsFromMatch (Suc (Suc d)) exSos ov exKnockout 18 =
     Inr [exTeam ''A1'' 0.6, exTeam ''B2'' 0.6, exTeam ''C1'' 0.6, exTeam ''D2'' 0.6]"
  using ex_possible_3 [of ov d] ex_possible_4 [of ov d]
  by (simp add: ex_find_18 getOverride_def del: getPossibleTeamsFromMatch.simps)
     (simp add: ex_find_18 getOverride_def)

lemma ex_path_empty: "findUpstreamMatches (Suc d) exSos fmempty exKnockout ''A1'' 3 = Inr [3]"
  by (simp add: findUpstreamMatches_def ex_r32 ex_possible_3 hasCode_def exTeam_def
       del: getPossibleTeamsFromMatch.simps)

lemma ex_path_C1: "findUpstreamMatches (Suc (Suc 0)) exSos fmempty exKnockout ''C1'' 3 = Inr [4, 18]"
  using ex_possible_3 [of fmempty "Suc 0"] ex_possible_4 [of fmempty "Suc 0"] ex_possible_18 [of fmempty 0]
  by (simp add: findUpstreamMatches_def exKnockout_def hasCode_def exTeam_def
       del: getPossibleTeamsFromMatch.simps)


section \<open>Round counters: helper lemmas\<close>

lemma counters_creditPosition [simp]: "counters (creditPosition ts c p d) = counters (ts d)"
  by (simp add: creditPosition_def counters_def)

lemma counters_creditR32:
  "counters (creditR32 ts c d) = (counters (ts d))[0 := r32Count (ts d) + (if d = c then 1 else 0)]"
  by (simp add: creditR32_def counters_def)

lemma counters_creditR16:
  "counters (creditR16 ts c d) = (counters (ts d))[1 := r16Count (ts d) + (if d = c then 1 else 0)]"
  by (simp add: creditR16_def counters_def)

lemma counters_creditQF:
  "counters (creditQF ts c d) = (counters (ts d))[2 := qfCount (ts d) + (if d = c then 1 else 0)]"
  by (simp add: creditQF_def counters_def)

lemma counters_creditSF:
  "counters (creditSF ts c d) = (counters (ts d))[3 := sfCount (ts d) + (if d = c then 1 else 0)]"
  by (simp add: creditSF_def counters_def)

lemma counters_creditFinal:
  "counters (creditFinal ts c d) = (counters (ts d))[4 := finalCount (ts d) + (if d = c then 1 else 0)]"
  by (simp add: creditFinal_def counters_def)

lemma counters_creditWin:
  "counters (creditWin ts c d) = (counters (ts d))[5 := winCount (ts d) + (if d = c then 1 else 0)]"
  by (simp add: creditWin_def counters_def)

lemma creditsAt_R32: "creditsAt 0 creditR32"
  by (simp add: creditsAt_def counters_creditR32) (simp add: counters_def)

lemma creditsAt_R16: "creditsAt 1 creditR16"
  by (simp add: creditsAt_def counters_creditR16) (simp add: counters_def)

lemma creditsAt_QF: "creditsAt 2 creditQF"
  by (simp add: creditsAt_def counters_creditQF) (simp add: counters_def)

lemma creditsAt_SF: "creditsAt 3 creditSF"
  by (simp add: creditsAt_def counters_creditSF) (simp add: counters_def)

lemma creditsAt_Final: "creditsAt 4 creditFinal"
  by (simp add: creditsAt_def counters_creditFinal) (simp add: counters_def)

lemma creditsAt_Win: "creditsAt 5 creditWin"
  by (simp add: creditsAt_def counters_creditWin) (simp add: counters_def)

lemma length_counters [simp]: "length (counters s) = 6"
  by (simp add: counters_def)

lemma counters_fold_credit:
  assumes "creditsAt j credit"
  shows "counters (fold (\<lambda>c s. credit s c) W ts d) =
         (counters (ts d))[j := counters (ts d) ! j + count_list W d]"
proof (induction W arbitrary: ts)
  case Nil
  show ?case by simp
next
  case (Cons c W)
  have step: "counters (credit ts c d) =
        (counters (ts d))[j := counters (ts d) ! j + (if d = c then 1 else 0)]"
    using assms by (simp add: creditsAt_def)
  show ?case
  proof (cases "j < 6")
    case True
    then show ?thesis by (simp add: Cons.IH step)
  next
    case False
    then show ?thesis by (simp add: Cons.IH step list_update_beyond)
  qed
qed

lemma creditStandings_aux:
  assumes f: "f = (\<lambda>(t, p) s.
             let s1 = creditPosition s (st_code t) p
             in if p = 0 \<or> p = 1 then creditR32 s1 (st_code t) else s1)"
  shows "counters (fold f (map (\<lambda>(i, x). (x, i)) (enumerate n st)) ts d) =
   (counters (ts d))[0 := r32Count (ts d) + count_list (map st_code (take (2 - n) st)) d]"
proof (induction st arbitrary: n ts)
  case Nil
  show ?case by (simp add: counters_def)
next
  case (Cons x st)
  have r: "r32Count s = counters s ! 0" for s by (simp add: counters_def)
  have step: "counters (fold f (map (\<lambda>(i, x). (x, i)) (enumerate n (x # st))) ts d) =
      (counters (f (x, n) ts d))[0 := r32Count (f (x, n) ts d) +
          count_list (map st_code (take (2 - Suc n) st)) d]"
    by (simp add: Cons.IH)
  consider "n = 0" | "n = 1" | "2 \<le> n" by linarith
  then show ?case
  proof cases
    case 1
    have t: "take 2 (x # st) = x # take 1 st" by (simp add: numeral_2_eq_2)
    show ?thesis
      unfolding step by (simp add: 1 t f Let_def counters_creditR32 r)
  next
    case 2
    show ?thesis
      unfolding step by (simp add: 2 f Let_def counters_creditR32 r)
  next
    case 3
    then have z: "2 - n = 0" "2 - Suc n = 0" "n \<noteq> 0" "n \<noteq> Suc 0" "Suc 0 - n = 0"
      by simp_all
    show ?thesis
      unfolding step by (simp add: f Let_def r z)
  qed
qed

lemma counters_creditStandings:
  "counters (creditStandings ts st d) =
   (counters (ts d))[0 := r32Count (ts d) + count_list (map st_code (take 2 st)) d]"
proof -
  have z: "zip st [0..<length st] = map (\<lambda>(i, x). (x, i)) (enumerate 0 st)"
    by (simp add: enumerate_eq_zip zip_commute [of st])
  show ?thesis
    unfolding creditStandings_def z
    using creditStandings_aux [OF refl, of 0 st ts d] by simp
qed

lemma distinct_subset_mset:
  assumes "distinct xs" and "set xs \<subseteq> set ys"
  shows "mset xs \<subseteq># mset ys"
proof (rule mset_subset_eqI)
  fix a
  show "count (mset xs) a \<le> count (mset ys) a"
  proof (cases "a \<in> set xs")
    case True
    with assms have "count (mset xs) a = 1" "a \<in> set ys"
      by (auto simp: distinct_count_atmost_1)
    then show ?thesis by (simp add: Suc_le_eq)
  next
    case False
    then have "count (mset xs) a = 0" by simp
    then show ?thesis by linarith
  qed
qed

lemma initGroupStats_keys:
  "distinct (map fst (initGroupStats teams)) \<and>
   set (map fst (initGroupStats teams)) = set (map code teams)"
  using initGroupStats_keys_aux [of "[]" "\<lambda>team. \<lparr>g_points = 0, g_gd = 0, g_elo = elo team\<rparr>" teams]
  by (simp add: initGroupStats_def)

lemma standings_codes:
  "mset (map st_code (fst (simulateGroup teams rnd k))) \<subseteq># mset (map code teams)"
proof -
  let ?stats = "playGroup teams (indexPairs (length teams)) rnd k (initGroupStats teams)"
  have "mset (map st_code (fst (simulateGroup teams rnd k))) =
        image_mset st_code (mset (js_sort byStanding (map toStanding (js_entries ?stats))))"
    by (simp add: simulateGroup_def Let_def)
  also have "\<dots> = image_mset st_code (image_mset toStanding (mset ?stats))"
    by (simp add: mset_js_sort mset_js_entries)
  also have "\<dots> = mset (map fst ?stats)"
    by (simp add: image_mset.compositionality comp_def toStanding_def)
  also have "\<dots> = mset (map fst (initGroupStats teams))"
    by (simp only: map_fst_playGroup)
  also have "\<dots> \<subseteq># mset (map code teams)"
    using initGroupStats_keys [of teams] by (intro distinct_subset_mset) simp_all
  finally show ?thesis .
qed

lemma topTwo_js_put:
  "mset (topTwo (js_put S g st)) \<subseteq># mset (topTwo S) + mset (take 2 st)"
proof (induction S)
  case Nil
  show ?case by (simp add: topTwo_def)
next
  case (Cons gs S)
  obtain g' st' where gs: "gs = (g', st')" by (cases gs)
  show ?case
  proof (cases "g' = g")
    case True
    then show ?thesis by (simp add: gs topTwo_def)
  next
    case False
    from Cons.IH have "mset (take 2 st') + mset (topTwo (js_put S g st)) \<subseteq>#
        mset (take 2 st') + (mset (topTwo S) + mset (take 2 st))"
      by (simp only: mset_subset_eq_mono_add_left_cancel)
    with False show ?thesis by (simp add: gs topTwo_def add.assoc)
  qed
qed

lemma take_three:
  assumes "js_index st 2 = Some s"
  shows "mset (take 2 st) + {#s#} \<subseteq># mset st"
proof -
  from assms have l: "2 < length st" and s: "s = st ! 2"
    by (auto simp: js_index_def split: if_splits)
  have "take 3 st = take 2 st @ [st ! 2]"
    using l by (simp add: take_Suc_conv_app_nth numeral_3_eq_3 numeral_2_eq_2)
  then have "mset (take 2 st) + {#s#} = mset (take 3 st)" by (simp add: s)
  also have "\<dots> \<subseteq># mset st"
    by (metis append_take_drop_id mset_append mset_subset_eq_add_left)
  finally show ?thesis .
qed

lemma simulateGroups_credits:
  "\<exists>C Tn. fst (snd (simulateGroups gts rnd k S T ts)) = T @ Tn \<and>
     (\<forall>d. counters (fst (snd (snd (simulateGroups gts rnd k S T ts))) d) =
          (counters (ts d))[0 := r32Count (ts d) + count_list C d]) \<and>
     mset (map st_code (topTwo (fst (simulateGroups gts rnd k S T ts)))) \<subseteq>#
       mset (map st_code (topTwo S)) + mset C \<and>
     mset C + mset (map st_code Tn) \<subseteq># mset (concat (map (\<lambda>gt. map code (snd gt)) gts))"
proof (induction gts arbitrary: k S T ts)
  case Nil
  have "fst (snd (simulateGroups [] rnd k S T ts)) = T @ [] \<and>
     (\<forall>d. counters (fst (snd (snd (simulateGroups [] rnd k S T ts))) d) =
          (counters (ts d))[0 := r32Count (ts d) + count_list [] d]) \<and>
     mset (map st_code (topTwo (fst (simulateGroups [] rnd k S T ts)))) \<subseteq>#
       mset (map st_code (topTwo S)) + mset [] \<and>
     mset [] + mset (map st_code []) \<subseteq># mset (concat (map (\<lambda>gt. map code (snd gt)) []))"
    by (simp add: counters_def)
  then show ?case by blast
next
  case (Cons gt gts)
  obtain g teams where gt: "gt = (g, teams)" by (cases gt)
  define st where "st = fst (simulateGroup teams rnd k)"
  define k1 where "k1 = snd (simulateGroup teams rnd k)"
  define S1 where "S1 = js_put S g st"
  define ts1 where "ts1 = creditStandings ts st"
  define Tg where "Tg = (case js_index st 2 of None \<Rightarrow> [] | Some s \<Rightarrow> [s\<lparr>st_group := Some g\<rparr>])"
  define T1 where "T1 = T @ Tg"
  have T1: "(case js_index st 2 of None \<Rightarrow> T | Some s \<Rightarrow> T @ [s\<lparr>st_group := Some g\<rparr>]) = T1"
    by (simp add: T1_def Tg_def split: option.splits)
  have unfold: "simulateGroups (gt # gts) rnd k S T ts = simulateGroups gts rnd k1 S1 T1 ts1"
    by (simp add: gt Let_def st_def [symmetric] k1_def [symmetric] S1_def [symmetric]
        ts1_def [symmetric] T1)
  from Cons.IH [of k1 S1 T1 ts1] obtain C Tn where
    ih1: "fst (snd (simulateGroups gts rnd k1 S1 T1 ts1)) = T1 @ Tn"
    and ih2: "\<forall>d. counters (fst (snd (snd (simulateGroups gts rnd k1 S1 T1 ts1))) d) =
          (counters (ts1 d))[0 := r32Count (ts1 d) + count_list C d]"
    and ih3: "mset (map st_code (topTwo (fst (simulateGroups gts rnd k1 S1 T1 ts1)))) \<subseteq>#
       mset (map st_code (topTwo S1)) + mset C"
    and ih4: "mset C + mset (map st_code Tn) \<subseteq># mset (concat (map (\<lambda>gt. map code (snd gt)) gts))"
    by blast
  let ?Cg = "map st_code (take 2 st)"
  have c1: "counters (ts1 d) = (counters (ts d))[0 := r32Count (ts d) + count_list ?Cg d]" for d
    by (simp add: ts1_def counters_creditStandings)
  have r1: "r32Count (ts1 d) = r32Count (ts d) + count_list ?Cg d" for d
    using c1 [of d] by (simp add: counters_def)
  have a: "fst (snd (simulateGroups (gt # gts) rnd k S T ts)) = T @ (Tg @ Tn)"
    using ih1 by (simp add: unfold T1_def)
  have b: "\<forall>d. counters (fst (snd (snd (simulateGroups (gt # gts) rnd k S T ts))) d) =
          (counters (ts d))[0 := r32Count (ts d) + count_list (?Cg @ C) d]"
    by (simp add: unfold ih2 c1 r1 add.assoc)
  have "mset (map st_code (topTwo S1)) \<subseteq># mset (map st_code (topTwo S)) + mset ?Cg"
    using image_mset_subseteq_mono [OF topTwo_js_put [of S g st], of st_code]
    by (simp add: S1_def)
  then have "mset (map st_code (topTwo S1)) + mset C \<subseteq>#
      mset (map st_code (topTwo S)) + mset ?Cg + mset C"
    by (simp only: mset_subset_eq_mono_add_right_cancel)
  with ih3 have "mset (map st_code (topTwo (fst (simulateGroups gts rnd k1 S1 T1 ts1)))) \<subseteq>#
      mset (map st_code (topTwo S)) + mset ?Cg + mset C"
    by (rule subset_mset.order_trans)
  then have c: "mset (map st_code (topTwo (fst (simulateGroups (gt # gts) rnd k S T ts)))) \<subseteq>#
       mset (map st_code (topTwo S)) + mset (?Cg @ C)"
    by (simp add: unfold add.assoc)
  have g3: "mset ?Cg + mset (map st_code Tg) \<subseteq># mset (map st_code st)"
  proof (cases "js_index st 2")
    case None
    then have "Tg = []" by (simp add: Tg_def)
    moreover have "mset (take 2 st) \<subseteq># mset st"
      by (metis append_take_drop_id mset_append mset_subset_eq_add_left)
    ultimately show ?thesis using image_mset_subseteq_mono [of "mset (take 2 st)" "mset st" st_code]
      by simp
  next
    case (Some s)
    then have "Tg = [s\<lparr>st_group := Some g\<rparr>]" by (simp add: Tg_def)
    then have "mset ?Cg + mset (map st_code Tg) = image_mset st_code (mset (take 2 st) + {#s#})"
      by simp
    also have "\<dots> \<subseteq># image_mset st_code (mset st)"
      by (intro image_mset_subseteq_mono take_three Some)
    finally show ?thesis by simp
  qed
  have sc: "mset (map st_code st) \<subseteq># mset (map code teams)"
    unfolding st_def by (rule standings_codes)
  from g3 sc have g4: "mset ?Cg + mset (map st_code Tg) \<subseteq># mset (map code teams)"
    by (rule subset_mset.order_trans)
  have d: "mset (?Cg @ C) + mset (map st_code (Tg @ Tn)) \<subseteq>#
      mset (concat (map (\<lambda>gt. map code (snd gt)) (gt # gts)))"
  proof -
    have "mset (?Cg @ C) + mset (map st_code (Tg @ Tn)) =
        (mset ?Cg + mset (map st_code Tg)) + (mset C + mset (map st_code Tn))"
      by simp
    also have "\<dots> \<subseteq># mset (map code teams) + mset (concat (map (\<lambda>gt. map code (snd gt)) gts))"
      using g4 ih4 by (rule subset_mset.add_mono)
    finally show ?thesis by (simp add: gt)
  qed
  from a b c d show ?case by blast
qed

lemma creditedIn_empty: "creditedIn Map.empty []"
  by (simp add: creditedIn_def)

lemma creditedIn_mono:
  assumes "creditedIn w W"
  shows "creditedIn w (W @ W')"
proof -
  have "mset W \<subseteq># mset (W @ W')" by simp
  with assms show ?thesis
    unfolding creditedIn_def by (meson subset_mset.order_trans)
qed

lemma creditedIn_update:
  assumes "creditedIn w W"
  shows "creditedIn (w(i \<mapsto> a)) (W @ [st_code a])"
proof -
  let ?h = "\<lambda>v x. st_code (the (v x))"
  define A where "A = dom w - {i}"
  from assms have fin: "finite (dom w)"
    and sub: "image_mset (?h w) (mset_set (dom w)) \<subseteq># mset W"
    by (simp_all add: creditedIn_def)
  have finA: "finite A" and notin: "i \<notin> A" and subA: "A \<subseteq> dom w"
    using fin by (auto simp: A_def)
  have dom: "dom (w(i \<mapsto> a)) = insert i A" by (auto simp: A_def)
  have same: "?h (w(i \<mapsto> a)) x = ?h w x" if "x \<in> A" for x
    using that notin by auto
  have "mset_set (insert i A) = add_mset i (mset_set A)"
    using finA notin by (rule mset_set.insert)
  then have "image_mset (?h (w(i \<mapsto> a))) (mset_set (dom (w(i \<mapsto> a)))) =
      add_mset (st_code a) (image_mset (?h (w(i \<mapsto> a))) (mset_set A))"
    unfolding dom by simp
  also have "image_mset (?h (w(i \<mapsto> a))) (mset_set A) = image_mset (?h w) (mset_set A)"
    using finA same by (intro image_mset_cong) simp
  finally have eq: "image_mset (?h (w(i \<mapsto> a))) (mset_set (dom (w(i \<mapsto> a)))) =
      add_mset (st_code a) (image_mset (?h w) (mset_set A))" .
  have "mset_set A \<subseteq># mset_set (dom w)"
    using fin subA by (intro subset_imp_msubset_mset_set)
  then have "image_mset (?h w) (mset_set A) \<subseteq># image_mset (?h w) (mset_set (dom w))"
    by (rule image_mset_subseteq_mono)
  then have "image_mset (?h w) (mset_set A) \<subseteq># mset W"
    using sub by (rule subset_mset.order_trans)
  then have "add_mset (st_code a) (image_mset (?h w) (mset_set A)) \<subseteq># mset (W @ [st_code a])"
    by simp
  with eq fin show ?thesis unfolding creditedIn_def by simp
qed

lemma mset_map_filter:
  "mset (List.map_filter f xs) = image_mset (the \<circ> f) (filter_mset (\<lambda>x. f x \<noteq> None) (mset xs))"
  by (induction xs) (auto split: option.splits)

lemma map_filter_mono:
  assumes "mset xs \<subseteq># mset ys"
  shows "mset (List.map_filter f xs) \<subseteq># mset (List.map_filter f ys)"
  unfolding mset_map_filter
  by (intro image_mset_subseteq_mono multiset_filter_mono assms)

lemma map_filter_append:
  "List.map_filter f (xs @ ys) = List.map_filter f xs @ List.map_filter f ys"
  by (induction xs) (auto split: option.splits)

lemma creditedIn_lookup:
  assumes "creditedIn w W" and "distinct xs"
  shows "mset (map st_code (List.map_filter w xs)) \<subseteq># mset W"
proof -
  from assms have fin: "finite (dom w)"
    and sub: "image_mset (\<lambda>x. st_code (the (w x))) (mset_set (dom w)) \<subseteq># mset W"
    by (simp_all add: creditedIn_def)
  have d: "distinct (filter (\<lambda>x. w x \<noteq> None) xs)" using assms(2) by simp
  have "filter_mset (\<lambda>x. w x \<noteq> None) (mset xs) = mset (filter (\<lambda>x. w x \<noteq> None) xs)" by simp
  also have "\<dots> = mset_set (set (filter (\<lambda>x. w x \<noteq> None) xs))"
    using d by (simp only: mset_set_set)
  also have "\<dots> \<subseteq># mset_set (dom w)"
    using fin by (intro subset_imp_msubset_mset_set) auto
  finally have "filter_mset (\<lambda>x. w x \<noteq> None) (mset xs) \<subseteq># mset_set (dom w)" .
  then have "image_mset (\<lambda>x. st_code (the (w x))) (filter_mset (\<lambda>x. w x \<noteq> None) (mset xs)) \<subseteq>#
      image_mset (\<lambda>x. st_code (the (w x))) (mset_set (dom w))"
    by (rule image_mset_subseteq_mono)
  then have "image_mset (\<lambda>x. st_code (the (w x))) (filter_mset (\<lambda>x. w x \<noteq> None) (mset xs)) \<subseteq># mset W"
    using sub by (rule subset_mset.order_trans)
  then show ?thesis
    by (simp add: mset_map_filter image_mset.compositionality comp_def)
qed

lemma creditedIn_value:
  assumes "creditedIn w W" and "w p = Some a"
  shows "st_code a \<in># mset W"
proof -
  from creditedIn_lookup [OF assms(1), of "[p]"] assms(2)
  have "{#st_code a#} \<subseteq># mset W" by simp
  then show ?thesis by (simp only: single_subset_iff)
qed

lemma resolveTeam1_slot:
  assumes "resolveTeam1 S s = Inr t1"
  shows "(case t1 of None \<Rightarrow> [] | Some a \<Rightarrow> [a]) = List.map_filter (slotEntry S) (slotKey s)"
  using assms
  by (auto simp: resolveTeam1_def slotKey_def lookupStanding_def slotEntry_def
      split: parsedSlot.splits if_splits option.splits)

lemma resolveTeam2_slot:
  assumes "resolveTeam2 S Q s = Inr (t2, Q')"
  shows "mset (case t2 of None \<Rightarrow> [] | Some a \<Rightarrow> [a]) + mset Q' =
         mset (List.map_filter (slotEntry S) (slotKey s)) + mset Q"
proof (cases "parseSlot s")
  case (PoolSlot pool)
  show ?thesis
  proof (cases "find (inPool pool) Q")
    case None
    with PoolSlot assms show ?thesis by (simp add: resolveTeam2_def slotKey_def)
  next
    case (Some t)
    then have mem: "t \<in> set Q" by (auto simp: find_Some_iff)
    from PoolSlot Some assms have res: "t2 = Some t" "Q' = remove1 t Q"
      by (simp_all add: resolveTeam2_def)
    from mem have "{#t#} + mset (remove1 t Q) = mset Q" by simp
    then show ?thesis by (simp add: res PoolSlot slotKey_def)
  qed
next
  case (PosSlot p g)
  with assms show ?thesis
    by (auto simp: resolveTeam2_def slotKey_def lookupStanding_def slotEntry_def
        split: if_splits option.splits sum.splits)
qed

lemma r32Match_credits:
  assumes "r32Match S rnd m (Q, w, ts, k) = Inr (Q', w', ts', k')"
  shows "\<exists>W. ts' = fold (\<lambda>c s. creditR16 s c) W ts \<and>
     mset W + mset (map st_code Q') \<subseteq>#
       mset (map st_code (List.map_filter (slotEntry S) (matchSlotKeys m))) + mset (map st_code Q) \<and>
     (\<forall>W0. creditedIn w W0 \<longrightarrow> creditedIn w' (W0 @ W))"
proof (cases m)
  case (PrevMatch i ps)
  with assms show ?thesis by simp
next
  case (SlotMatch i s1 s2)
  from assms SlotMatch obtain t1 where t1: "resolveTeam1 S s1 = Inr t1"
    by (auto split: sum.splits)
  from assms SlotMatch t1 obtain t2 Q1 where t2: "resolveTeam2 S Q s2 = Inr (t2, Q1)"
    by (auto split: sum.splits)
  let ?l1 = "case t1 of None \<Rightarrow> [] | Some a \<Rightarrow> [a]"
  let ?l2 = "case t2 of None \<Rightarrow> [] | Some a \<Rightarrow> [a]"
  have "mset ?l1 + (mset ?l2 + mset Q1) =
        mset (List.map_filter (slotEntry S) (slotKey s1)) +
        (mset (List.map_filter (slotEntry S) (slotKey s2)) + mset Q)"
    by (simp only: resolveTeam1_slot [OF t1] resolveTeam2_slot [OF t2])
  then have "mset (?l1 @ ?l2) + mset Q1 =
        mset (List.map_filter (slotEntry S) (matchSlotKeys m)) + mset Q"
    by (simp add: SlotMatch map_filter_append add.assoc)
  then have "image_mset st_code (mset (?l1 @ ?l2) + mset Q1) =
        image_mset st_code (mset (List.map_filter (slotEntry S) (matchSlotKeys m)) + mset Q)"
    by (rule arg_cong)
  then have parts: "mset (map st_code (?l1 @ ?l2)) + mset (map st_code Q1) =
        mset (map st_code (List.map_filter (slotEntry S) (matchSlotKeys m))) + mset (map st_code Q)"
    by simp
  show ?thesis
  proof (cases "\<exists>a b. t1 = Some a \<and> t2 = Some b")
    case True
    then obtain a b where ab: "t1 = Some a" "t2 = Some b" by blast
    define x where "x = (if simulateKnockoutMatch (st_elo a) (st_elo b) (rnd k) = 1 then a else b)"
    from assms SlotMatch t1 t2 ab
    have res: "Q' = Q1" "w' = w(i \<mapsto> x)" "ts' = creditR16 ts (st_code x)"
      by (simp_all add: Let_def x_def)
    have "{#st_code x#} \<subseteq># mset (map st_code (?l1 @ ?l2))"
      by (simp add: ab x_def)
    then have "{#st_code x#} + mset (map st_code Q1) \<subseteq>#
        mset (map st_code (?l1 @ ?l2)) + mset (map st_code Q1)"
      by (simp only: mset_subset_eq_mono_add_right_cancel)
    with parts have "mset [st_code x] + mset (map st_code Q') \<subseteq>#
       mset (map st_code (List.map_filter (slotEntry S) (matchSlotKeys m))) + mset (map st_code Q)"
      by (simp add: res)
    moreover have "ts' = fold (\<lambda>c s. creditR16 s c) [st_code x] ts" by (simp add: res)
    moreover have "\<forall>W0. creditedIn w W0 \<longrightarrow> creditedIn w' (W0 @ [st_code x])"
      by (simp add: res creditedIn_update)
    ultimately show ?thesis by blast
  next
    case False
    with assms SlotMatch t1 t2 have res: "Q' = Q1" "w' = w" "ts' = ts"
      by (auto split: option.splits)
    have "mset (map st_code Q1) \<subseteq># mset (map st_code (?l1 @ ?l2)) + mset (map st_code Q1)"
      by simp
    with parts have "mset [] + mset (map st_code Q') \<subseteq>#
       mset (map st_code (List.map_filter (slotEntry S) (matchSlotKeys m))) + mset (map st_code Q)"
      by (simp add: res)
    moreover have "ts' = fold (\<lambda>c s. creditR16 s c) [] ts" by (simp add: res)
    moreover have "\<forall>W0. creditedIn w W0 \<longrightarrow> creditedIn w' (W0 @ [])" by (simp add: res)
    ultimately show ?thesis by blast
  qed
qed

lemma simulateR32_credits:
  assumes "simulateR32 S rnd ms (Q, w, ts, k) = Inr (Q', w', ts', k')"
  shows "\<exists>W. ts' = fold (\<lambda>c s. creditR16 s c) W ts \<and>
     mset W + mset (map st_code Q') \<subseteq>#
       mset (map st_code (List.map_filter (slotEntry S) (positionSlots ms))) + mset (map st_code Q) \<and>
     (\<forall>W0. creditedIn w W0 \<longrightarrow> creditedIn w' (W0 @ W))"
  using assms
proof (induction ms arbitrary: Q w ts k)
  case Nil
  then have "ts' = fold (\<lambda>c s. creditR16 s c) [] ts \<and>
     mset [] + mset (map st_code Q') \<subseteq>#
       mset (map st_code (List.map_filter (slotEntry S) (positionSlots []))) + mset (map st_code Q) \<and>
     (\<forall>W0. creditedIn w W0 \<longrightarrow> creditedIn w' (W0 @ []))"
    by (simp add: positionSlots_def)
  then show ?case by blast
next
  case (Cons m ms)
  from Cons.prems obtain Q1 w1 ts1 k1 where
    first: "r32Match S rnd m (Q, w, ts, k) = Inr (Q1, w1, ts1, k1)"
    and rest: "simulateR32 S rnd ms (Q1, w1, ts1, k1) = Inr (Q', w', ts', k')"
    by (auto split: sum.splits)
  from r32Match_credits [OF first] obtain W1 where
    a1: "ts1 = fold (\<lambda>c s. creditR16 s c) W1 ts"
    and b1: "mset W1 + mset (map st_code Q1) \<subseteq>#
       mset (map st_code (List.map_filter (slotEntry S) (matchSlotKeys m))) + mset (map st_code Q)"
    and c1: "\<forall>W0. creditedIn w W0 \<longrightarrow> creditedIn w1 (W0 @ W1)"
    by blast
  from Cons.IH [OF rest] obtain W2 where
    a2: "ts' = fold (\<lambda>c s. creditR16 s c) W2 ts1"
    and b2: "mset W2 + mset (map st_code Q') \<subseteq>#
       mset (map st_code (List.map_filter (slotEntry S) (positionSlots ms))) + mset (map st_code Q1)"
    and c2: "\<forall>W0. creditedIn w1 W0 \<longrightarrow> creditedIn w' (W0 @ W2)"
    by blast
  let ?P = "\<lambda>ks. mset (map st_code (List.map_filter (slotEntry S) ks))"
  have a: "ts' = fold (\<lambda>c s. creditR16 s c) (W1 @ W2) ts" by (simp add: a1 a2)
  have "mset W1 + (mset W2 + mset (map st_code Q')) \<subseteq># mset W1 + (?P (positionSlots ms) + mset (map st_code Q1))"
    using b2 by (simp only: mset_subset_eq_mono_add_left_cancel)
  also have "\<dots> = ?P (positionSlots ms) + (mset W1 + mset (map st_code Q1))"
    by (simp add: ac_simps)
  also have "\<dots> \<subseteq># ?P (positionSlots ms) + (?P (matchSlotKeys m) + mset (map st_code Q))"
    using b1 by (simp only: mset_subset_eq_mono_add_left_cancel)
  also have "\<dots> = ?P (positionSlots (m # ms)) + mset (map st_code Q)"
    by (simp add: positionSlots_def map_filter_append ac_simps)
  finally have b: "mset (W1 @ W2) + mset (map st_code Q') \<subseteq>#
      ?P (positionSlots (m # ms)) + mset (map st_code Q)"
    by (simp add: ac_simps)
  have c: "\<forall>W0. creditedIn w W0 \<longrightarrow> creditedIn w' (W0 @ (W1 @ W2))"
    using c1 c2 by (metis append.assoc)
  from a b c show ?case by blast
qed

lemma slotKey_fst: "key \<in> set (slotKey s) \<Longrightarrow> fst key = 1 \<or> fst key = 2"
  by (auto simp: slotKey_def split: parsedSlot.splits if_splits)

lemma positionSlots_fst: "key \<in> set (positionSlots ms) \<Longrightarrow> fst key = 1 \<or> fst key = 2"
proof -
  assume "key \<in> set (positionSlots ms)"
  then obtain m where m: "m \<in> set ms" "key \<in> set (matchSlotKeys m)"
    by (auto simp: positionSlots_def)
  show ?thesis
  proof (cases m)
    case (SlotMatch i s1 s2)
    with \<open>key \<in> set (matchSlotKeys m)\<close>
    have "key \<in> set (slotKey s1) \<or> key \<in> set (slotKey s2)" by simp
    then show ?thesis using slotKey_fst by blast
  next
    case (PrevMatch i ps)
    with \<open>key \<in> set (matchSlotKeys m)\<close> show ?thesis by simp
  qed
qed

lemma first_two: "mset (List.map_filter (js_index st) [0, 1]) = mset (take 2 st)"
proof (cases st)
  case Nil
  then show ?thesis by (simp add: js_index_def)
next
  case (Cons a st')
  then show ?thesis by (cases st') (simp_all add: js_index_def numeral_2_eq_2)
qed

lemma map_filter_cong_list:
  assumes "\<And>x. x \<in> set xs \<Longrightarrow> f x = g x"
  shows "List.map_filter f xs = List.map_filter g xs"
  using assms by (induction xs) (auto split: option.splits)

lemma slots_in_topTwo:
  assumes "distinct keys" and "\<forall>key \<in> set keys. fst key = 1 \<or> fst key = 2"
  shows "mset (List.map_filter (slotEntry S) keys) \<subseteq># mset (topTwo S)"
  using assms
proof (induction S arbitrary: keys)
  case Nil
  have "List.map_filter (slotEntry []) keys = []"
    by (induction keys) (simp_all add: slotEntry_def)
  then show ?case by (simp add: topTwo_def)
next
  case (Cons gs S)
  obtain g st where gs: "gs = (g, st)" by (cases gs)
  let ?K1 = "filter (\<lambda>key. snd key = g) keys"
  let ?K2 = "filter (\<lambda>key. snd key \<noteq> g) keys"
  have "mset (List.map_filter (slotEntry (gs # S)) keys) =
      mset (List.map_filter (slotEntry (gs # S)) ?K1) + mset (List.map_filter (slotEntry (gs # S)) ?K2)"
    by (induction keys) (auto split: option.splits)
  moreover have "mset (List.map_filter (slotEntry (gs # S)) ?K2) \<subseteq># mset (topTwo S)"
  proof -
    have "List.map_filter (slotEntry (gs # S)) ?K2 = List.map_filter (slotEntry S) ?K2"
      by (rule map_filter_cong_list) (simp add: slotEntry_def gs)
    moreover have "mset (List.map_filter (slotEntry S) ?K2) \<subseteq># mset (topTwo S)"
      using Cons.prems by (intro Cons.IH) auto
    ultimately show ?thesis by simp
  qed
  moreover have "mset (List.map_filter (slotEntry (gs # S)) ?K1) \<subseteq># mset (take 2 st)"
  proof -
    have d: "distinct ?K1" using Cons.prems(1) by simp
    have "set ?K1 \<subseteq> set [(1, g), (2, g)]"
      using Cons.prems(2) by (auto simp: prod_eq_iff)
    with d have "mset ?K1 \<subseteq># mset [(1 :: nat, g), (2, g)]" by (rule distinct_subset_mset)
    then have "mset (List.map_filter (slotEntry (gs # S)) ?K1) \<subseteq>#
        mset (List.map_filter (slotEntry (gs # S)) [(1, g), (2, g)])"
      by (rule map_filter_mono)
    also have "List.map_filter (slotEntry (gs # S)) [(1, g), (2, g)] =
        List.map_filter (js_index st) [0, 1]"
      by (auto simp: slotEntry_def gs split: option.splits)
    finally show ?thesis by (simp only: first_two)
  qed
  ultimately show ?case
    by (simp add: gs topTwo_def subset_mset.add_mono)
qed

lemma winnerOf_both:
  assumes "winnerOf prev ps 0 = Some a" and "winnerOf prev ps 1 = Some b"
  shows "\<exists>rest. List.map_filter prev ps = a # b # rest"
proof -
  from assms(2) obtain p0 p1 ps' where ps: "ps = p0 # p1 # ps'"
    by (cases ps; cases "tl ps") (auto simp: winnerOf_def js_index_def split: if_splits)
  with assms have "prev p0 = Some a" "prev p1 = Some b"
    by (simp_all add: winnerOf_def js_index_def)
  with ps show ?thesis by simp
qed

lemma roundMatch_credits:
  assumes "roundMatch credit prev rnd m (w, ts, k) = Inr (w', ts', k')"
  shows "\<exists>W. ts' = fold (\<lambda>c s. credit s c) W ts \<and>
     mset W \<subseteq># mset (map st_code (List.map_filter prev
        (case prevMatches m of None \<Rightarrow> [] | Some ps \<Rightarrow> ps))) \<and>
     (\<forall>W0. creditedIn w W0 \<longrightarrow> creditedIn w' (W0 @ W))"
proof (cases m)
  case (SlotMatch i s1 s2)
  with assms show ?thesis by simp
next
  case (PrevMatch i ps)
  show ?thesis
  proof (cases "\<exists>a b. winnerOf prev ps 0 = Some a \<and> winnerOf prev ps 1 = Some b")
    case True
    then obtain a b where ab: "winnerOf prev ps 0 = Some a" "winnerOf prev ps 1 = Some b"
      by blast
    define x where "x = (if simulateKnockoutMatch (st_elo a) (st_elo b) (rnd k) = 1 then a else b)"
    from assms PrevMatch ab have res: "w' = w(i \<mapsto> x)" "ts' = credit ts (st_code x)"
      by (simp_all add: Let_def x_def)
    from winnerOf_both [OF ab] obtain rest where "List.map_filter prev ps = a # b # rest" ..
    then have "mset [st_code x] \<subseteq># mset (map st_code (List.map_filter prev
        (case prevMatches m of None \<Rightarrow> [] | Some ps \<Rightarrow> ps)))"
      by (simp add: PrevMatch x_def)
    moreover have "ts' = fold (\<lambda>c s. credit s c) [st_code x] ts" by (simp add: res)
    moreover have "\<forall>W0. creditedIn w W0 \<longrightarrow> creditedIn w' (W0 @ [st_code x])"
      by (simp add: res creditedIn_update)
    ultimately show ?thesis by blast
  next
    case False
    with assms PrevMatch have res: "w' = w" "ts' = ts"
      by (auto split: option.splits)
    have "mset [] \<subseteq># mset (map st_code (List.map_filter prev
        (case prevMatches m of None \<Rightarrow> [] | Some ps \<Rightarrow> ps)))" by simp
    moreover have "ts' = fold (\<lambda>c s. credit s c) [] ts" by (simp add: res)
    moreover have "\<forall>W0. creditedIn w W0 \<longrightarrow> creditedIn w' (W0 @ [])" by (simp add: res)
    ultimately show ?thesis by blast
  qed
qed

lemma simulateRound_credits:
  assumes "simulateRound credit prev rnd ms (w, ts, k) = Inr (w', ts', k')"
  shows "\<exists>W. ts' = fold (\<lambda>c s. credit s c) W ts \<and>
     mset W \<subseteq># mset (map st_code (List.map_filter prev (feeds ms))) \<and>
     (\<forall>W0. creditedIn w W0 \<longrightarrow> creditedIn w' (W0 @ W))"
  using assms
proof (induction ms arbitrary: w ts k)
  case Nil
  then have "ts' = fold (\<lambda>c s. credit s c) [] ts \<and>
     mset [] \<subseteq># mset (map st_code (List.map_filter prev (feeds []))) \<and>
     (\<forall>W0. creditedIn w W0 \<longrightarrow> creditedIn w' (W0 @ []))"
    by simp
  then show ?case by blast
next
  case (Cons m ms)
  from Cons.prems obtain w1 ts1 k1 where
    first: "roundMatch credit prev rnd m (w, ts, k) = Inr (w1, ts1, k1)"
    and rest: "simulateRound credit prev rnd ms (w1, ts1, k1) = Inr (w', ts', k')"
    by (auto split: sum.splits)
  let ?ps = "case prevMatches m of None \<Rightarrow> [] | Some ps \<Rightarrow> ps"
  from roundMatch_credits [OF first] obtain W1 where
    a1: "ts1 = fold (\<lambda>c s. credit s c) W1 ts"
    and b1: "mset W1 \<subseteq># mset (map st_code (List.map_filter prev ?ps))"
    and c1: "\<forall>W0. creditedIn w W0 \<longrightarrow> creditedIn w1 (W0 @ W1)"
    by blast
  from Cons.IH [OF rest] obtain W2 where
    a2: "ts' = fold (\<lambda>c s. credit s c) W2 ts1"
    and b2: "mset W2 \<subseteq># mset (map st_code (List.map_filter prev (feeds ms)))"
    and c2: "\<forall>W0. creditedIn w1 W0 \<longrightarrow> creditedIn w' (W0 @ W2)"
    by blast
  have a: "ts' = fold (\<lambda>c s. credit s c) (W1 @ W2) ts" by (simp add: a1 a2)
  have "mset W1 + mset W2 \<subseteq># mset (map st_code (List.map_filter prev ?ps)) +
      mset (map st_code (List.map_filter prev (feeds ms)))"
    using b1 b2 by (rule subset_mset.add_mono)
  then have b: "mset (W1 @ W2) \<subseteq># mset (map st_code (List.map_filter prev (feeds (m # ms))))"
    by (simp add: feeds_def map_filter_append)
  have c: "\<forall>W0. creditedIn w W0 \<longrightarrow> creditedIn w' (W0 @ (W1 @ W2))"
    using c1 c2 by (metis append.assoc)
  from a b c show ?case by blast
qed

lemma simulateFinal_credits:
  assumes "simulateFinal finals sfw rnd (ts, k) = Inr (ts', k')"
  shows "\<exists>W. ts' = fold (\<lambda>c s. creditWin s c) W ts \<and>
     (\<forall>W0. creditedIn sfw W0 \<longrightarrow> mset W \<subseteq># mset W0)"
proof -
  from assms obtain i ps rest where fin: "finals = PrevMatch i ps # rest"
    by (auto simp: simulateFinal_def split: list.splits kmatch.splits)
  show ?thesis
  proof (cases "\<exists>a b. winnerOf sfw ps 0 = Some a \<and> winnerOf sfw ps 1 = Some b")
    case True
    then obtain a b where ab: "winnerOf sfw ps 0 = Some a" "winnerOf sfw ps 1 = Some b"
      by blast
    define x where "x = (if simulateKnockoutMatch (st_elo a) (st_elo b) (rnd k) = 1 then a else b)"
    from assms fin ab have res: "ts' = creditWin ts (st_code x)"
      by (simp add: simulateFinal_def Let_def x_def)
    from ab obtain p q where "sfw p = Some a" "sfw q = Some b"
      by (auto simp: winnerOf_def split: option.splits)
    then have "\<exists>p. sfw p = Some x" by (auto simp: x_def)
    then obtain p where "sfw p = Some x" ..
    then have "\<forall>W0. creditedIn sfw W0 \<longrightarrow> mset [st_code x] \<subseteq># mset W0"
      by (auto dest: creditedIn_value)
    moreover have "ts' = fold (\<lambda>c s. creditWin s c) [st_code x] ts" by (simp add: res)
    ultimately show ?thesis by blast
  next
    case False
    with assms fin have "ts' = ts"
      by (auto simp: simulateFinal_def split: option.splits)
    then have "ts' = fold (\<lambda>c s. creditWin s c) [] ts \<and>
        (\<forall>W0. creditedIn sfw W0 \<longrightarrow> mset [] \<subseteq># mset W0)" by simp
    then show ?thesis by blast
  qed
qed

lemma mset_qualifyThirds: "mset (qualifyThirds T) \<subseteq># mset T"
proof -
  have "mset (take 8 (js_sort byStanding T)) \<subseteq># mset (js_sort byStanding T)"
    by (metis append_take_drop_id mset_append mset_subset_eq_add_left)
  then show ?thesis by (simp add: qualifyThirds_def mset_js_sort)
qed

lemma markThirds_fold: "markThirds ts Q = fold (\<lambda>c s. creditR32 s c) (map st_code Q) ts"
  by (simp add: markThirds_def fold_map comp_def)

lemma simulateIteration_counts:
  assumes it: "simulateIteration allTeams ko rnd (ts, k) = Inr (ts', k')"
    and slots: "distinct (positionSlots (r32 ko))"
    and f16: "distinct (feeds (r16 ko))"
    and fqf: "distinct (feeds (qf ko))"
    and fsf: "distinct (feeds (sf ko))"
  shows "\<exists>C W1 W2 W3 W4 W5.
      (\<forall>d. counters (ts' d) =
         [r32Count (ts d) + count_list C d, r16Count (ts d) + count_list W1 d,
          qfCount (ts d) + count_list W2 d, sfCount (ts d) + count_list W3 d,
          finalCount (ts d) + count_list W4 d, winCount (ts d) + count_list W5 d]) \<and>
      mset W5 \<subseteq># mset W4 \<and> mset W4 \<subseteq># mset W3 \<and> mset W3 \<subseteq># mset W2 \<and>
      mset W2 \<subseteq># mset W1 \<and> mset W1 \<subseteq># mset C \<and>
      mset C \<subseteq># mset (concat (map (\<lambda>gt. map code (snd gt)) (js_entries allTeams)))"
proof -
  let ?G = "simulateGroups (js_entries allTeams) rnd k [] [] ts"
  define S where "S = fst ?G"
  define T where "T = fst (snd ?G)"
  define ts1 where "ts1 = fst (snd (snd ?G))"
  define k1 where "k1 = snd (snd (snd ?G))"
  define Q where "Q = qualifyThirds T"
  define ts2 where "ts2 = markThirds ts1 Q"
  have G: "?G = (S, T, ts1, k1)" by (simp add: S_def T_def ts1_def k1_def)
  from simulateGroups_credits [of "js_entries allTeams" rnd k "[]" "[]" ts]
  obtain C0 Tn where
    g1: "T = Tn"
    and g2: "\<forall>d. counters (ts1 d) = (counters (ts d))[0 := r32Count (ts d) + count_list C0 d]"
    and g3: "mset (map st_code (topTwo S)) \<subseteq># mset C0"
    and g4: "mset C0 + mset (map st_code Tn) \<subseteq>#
        mset (concat (map (\<lambda>gt. map code (snd gt)) (js_entries allTeams)))"
    unfolding S_def T_def ts1_def by (auto simp: topTwo_def)
  from it G obtain Q' w32 ts3 k3 where
    r32: "simulateR32 S rnd (r32 ko) (Q, Map.empty, ts2, k1) = Inr (Q', w32, ts3, k3)"
    by (auto simp: simulateIteration_def Let_def Q_def ts2_def split: sum.splits)
  from it G r32 obtain w16 ts4 k4 where
    r16: "simulateRound creditQF w32 rnd (r16 ko) (Map.empty, ts3, k3) = Inr (w16, ts4, k4)"
    by (auto simp: simulateIteration_def Let_def Q_def ts2_def split: sum.splits)
  from it G r32 r16 obtain wqf ts5 k5 where
    rqf: "simulateRound creditSF w16 rnd (qf ko) (Map.empty, ts4, k4) = Inr (wqf, ts5, k5)"
    by (auto simp: simulateIteration_def Let_def Q_def ts2_def split: sum.splits)
  from it G r32 r16 rqf obtain wsf ts6 k6 where
    rsf: "simulateRound creditFinal wqf rnd (sf ko) (Map.empty, ts5, k5) = Inr (wsf, ts6, k6)"
    by (auto simp: simulateIteration_def Let_def Q_def ts2_def split: sum.splits)
  from it G r32 r16 rqf rsf have
    rfin: "simulateFinal (final ko) wsf rnd (ts6, k6) = Inr (ts', k')"
    by (simp add: simulateIteration_def Let_def Q_def ts2_def)
  define C where "C = C0 @ map st_code Q"
  from simulateR32_credits [OF r32] creditedIn_empty obtain W1 where
    a1: "ts3 = fold (\<lambda>c s. creditR16 s c) W1 ts2"
    and b1: "mset W1 + mset (map st_code Q') \<subseteq>#
       mset (map st_code (List.map_filter (slotEntry S) (positionSlots (r32 ko)))) +
       mset (map st_code Q)"
    and c1: "creditedIn w32 W1"
    by fastforce
  from simulateRound_credits [OF r16] creditedIn_empty obtain W2 where
    a2: "ts4 = fold (\<lambda>c s. creditQF s c) W2 ts3"
    and b2: "mset W2 \<subseteq># mset (map st_code (List.map_filter w32 (feeds (r16 ko))))"
    and c2: "creditedIn w16 W2"
    by fastforce
  from simulateRound_credits [OF rqf] creditedIn_empty obtain W3 where
    a3: "ts5 = fold (\<lambda>c s. creditSF s c) W3 ts4"
    and b3: "mset W3 \<subseteq># mset (map st_code (List.map_filter w16 (feeds (qf ko))))"
    and c3: "creditedIn wqf W3"
    by fastforce
  from simulateRound_credits [OF rsf] creditedIn_empty obtain W4 where
    a4: "ts6 = fold (\<lambda>c s. creditFinal s c) W4 ts5"
    and b4: "mset W4 \<subseteq># mset (map st_code (List.map_filter wqf (feeds (sf ko))))"
    and c4: "creditedIn wsf W4"
    by fastforce
  from simulateFinal_credits [OF rfin] c4 obtain W5 where
    a5: "ts' = fold (\<lambda>c s. creditWin s c) W5 ts6"
    and b5: "mset W5 \<subseteq># mset W4"
    by blast
  have i4: "mset W4 \<subseteq># mset W3"
    using b4 creditedIn_lookup [OF c3 fsf] by (rule subset_mset.order_trans)
  have i3: "mset W3 \<subseteq># mset W2"
    using b3 creditedIn_lookup [OF c2 fqf] by (rule subset_mset.order_trans)
  have i2: "mset W2 \<subseteq># mset W1"
    using b2 creditedIn_lookup [OF c1 f16] by (rule subset_mset.order_trans)
  have i1: "mset W1 \<subseteq># mset C"
  proof -
    have "mset W1 \<subseteq># mset W1 + mset (map st_code Q')" by simp
    also note b1
    also have "mset (map st_code (List.map_filter (slotEntry S) (positionSlots (r32 ko)))) +
        mset (map st_code Q) \<subseteq># mset (map st_code (topTwo S)) + mset (map st_code Q)"
    proof -
      have "mset (List.map_filter (slotEntry S) (positionSlots (r32 ko))) \<subseteq># mset (topTwo S)"
        using slots positionSlots_fst by (intro slots_in_topTwo) blast+
      then have "image_mset st_code (mset (List.map_filter (slotEntry S) (positionSlots (r32 ko))))
          \<subseteq># image_mset st_code (mset (topTwo S))"
        by (rule image_mset_subseteq_mono)
      then show ?thesis by (simp only: mset_map mset_subset_eq_mono_add_right_cancel)
    qed
    also have "\<dots> \<subseteq># mset C0 + mset (map st_code Q)"
      using g3 by (simp only: mset_subset_eq_mono_add_right_cancel)
    finally show ?thesis by (simp add: C_def)
  qed
  have i0: "mset C \<subseteq># mset (concat (map (\<lambda>gt. map code (snd gt)) (js_entries allTeams)))"
  proof -
    have "image_mset st_code (mset Q) \<subseteq># image_mset st_code (mset T)"
      unfolding Q_def by (intro image_mset_subseteq_mono mset_qualifyThirds)
    then have "mset C0 + mset (map st_code Q) \<subseteq># mset C0 + mset (map st_code Tn)"
      by (simp add: g1)
    then show ?thesis using g4 unfolding C_def mset_append by (rule subset_mset.order_trans)
  qed
  have cnt: "counters (ts' d) =
         [r32Count (ts d) + count_list C d, r16Count (ts d) + count_list W1 d,
          qfCount (ts d) + count_list W2 d, sfCount (ts d) + count_list W3 d,
          finalCount (ts d) + count_list W4 d, winCount (ts d) + count_list W5 d]" for d
  proof -
    have s2: "counters (ts2 d) = (counters (ts1 d))[0 := counters (ts1 d) ! 0 + count_list (map st_code Q) d]"
      unfolding ts2_def markThirds_fold by (rule counters_fold_credit [OF creditsAt_R32])
    have s3: "counters (ts3 d) = (counters (ts2 d))[1 := counters (ts2 d) ! 1 + count_list W1 d]"
      unfolding a1 by (rule counters_fold_credit [OF creditsAt_R16])
    have s4: "counters (ts4 d) = (counters (ts3 d))[2 := counters (ts3 d) ! 2 + count_list W2 d]"
      unfolding a2 by (rule counters_fold_credit [OF creditsAt_QF])
    have s5: "counters (ts5 d) = (counters (ts4 d))[3 := counters (ts4 d) ! 3 + count_list W3 d]"
      unfolding a3 by (rule counters_fold_credit [OF creditsAt_SF])
    have s6: "counters (ts6 d) = (counters (ts5 d))[4 := counters (ts5 d) ! 4 + count_list W4 d]"
      unfolding a4 by (rule counters_fold_credit [OF creditsAt_Final])
    have s7: "counters (ts' d) = (counters (ts6 d))[5 := counters (ts6 d) ! 5 + count_list W5 d]"
      unfolding a5 by (rule counters_fold_credit [OF creditsAt_Win])
    have s1: "counters (ts1 d) = (counters (ts d))[0 := r32Count (ts d) + count_list C0 d]"
      using g2 by simp
    have base: "counters (ts d) = [r32Count (ts d), r16Count (ts d), qfCount (ts d), sfCount (ts d),
        finalCount (ts d), winCount (ts d)]"
      by (simp add: counters_def)
    show ?thesis
      unfolding s7 s6 s5 s4 s3 s2 s1 base C_def
      by (simp add: eval_nat_numeral)
  qed
  from cnt b5 i4 i3 i2 i1 i0 show ?thesis by blast
qed

lemma simulateIteration_chain:
  assumes it: "simulateIteration allTeams ko rnd (ts, k) = Inr (ts', k')"
    and slots: "distinct (positionSlots (r32 ko))"
    and f16: "distinct (feeds (r16 ko))"
    and fqf: "distinct (feeds (qf ko))"
    and fsf: "distinct (feeds (sf ko))"
    and codes: "distinct (concat (map (\<lambda>gt. map code (snd gt)) (js_entries allTeams)))"
    and ok: "\<forall>d. chainOK n (ts d)"
  shows "\<forall>d. chainOK (Suc n) (ts' d)"
proof
  fix d
  from simulateIteration_counts [OF it slots f16 fqf fsf]
  obtain C W1 W2 W3 W4 W5 where
    cnt: "counters (ts' d) =
         [r32Count (ts d) + count_list C d, r16Count (ts d) + count_list W1 d,
          qfCount (ts d) + count_list W2 d, sfCount (ts d) + count_list W3 d,
          finalCount (ts d) + count_list W4 d, winCount (ts d) + count_list W5 d]"
    and inc: "mset W5 \<subseteq># mset W4" "mset W4 \<subseteq># mset W3" "mset W3 \<subseteq># mset W2"
      "mset W2 \<subseteq># mset W1" "mset W1 \<subseteq># mset C"
      "mset C \<subseteq># mset (concat (map (\<lambda>gt. map code (snd gt)) (js_entries allTeams)))"
    by blast
  from inc have le: "count_list W5 d \<le> count_list W4 d" "count_list W4 d \<le> count_list W3 d"
    "count_list W3 d \<le> count_list W2 d" "count_list W2 d \<le> count_list W1 d"
    "count_list W1 d \<le> count_list C d"
    "count_list C d \<le> count_list (concat (map (\<lambda>gt. map code (snd gt)) (js_entries allTeams))) d"
    by (simp_all only: count_mset [symmetric] mset_subset_eq_count)
  from codes have "count_list (concat (map (\<lambda>gt. map code (snd gt)) (js_entries allTeams))) d \<le> 1"
    by (simp add: count_mset [symmetric] distinct_count_atmost_1)
  with le have one: "count_list C d \<le> 1" by linarith
  from cnt have vals: "r32Count (ts' d) = r32Count (ts d) + count_list C d"
    "r16Count (ts' d) = r16Count (ts d) + count_list W1 d"
    "qfCount (ts' d) = qfCount (ts d) + count_list W2 d"
    "sfCount (ts' d) = sfCount (ts d) + count_list W3 d"
    "finalCount (ts' d) = finalCount (ts d) + count_list W4 d"
    "winCount (ts' d) = winCount (ts d) + count_list W5 d"
    by (simp_all add: counters_def)
  from ok have "chainOK n (ts d)" ..
  with le one show "chainOK (Suc n) (ts' d)"
    unfolding chainOK_def vals by linarith
qed

lemma simulateLoop_chain:
  assumes "simulateLoop m allTeams ko rnd (ts, k) = Inr (ts', k')"
    and slots: "distinct (positionSlots (r32 ko))"
    and f16: "distinct (feeds (r16 ko))"
    and fqf: "distinct (feeds (qf ko))"
    and fsf: "distinct (feeds (sf ko))"
    and codes: "distinct (concat (map (\<lambda>gt. map code (snd gt)) (js_entries allTeams)))"
    and ok: "\<forall>d. chainOK n (ts d)"
  shows "\<forall>d. chainOK (n + m) (ts' d)"
  using assms(1) ok
proof (induction m arbitrary: ts k n)
  case 0
  then show ?case by simp
next
  case (Suc m)
  from Suc.prems(1) obtain ts1 k1 where
    first: "simulateIteration allTeams ko rnd (ts, k) = Inr (ts1, k1)"
    and rest: "simulateLoop m allTeams ko rnd (ts1, k1) = Inr (ts', k')"
    by (auto split: sum.splits)
  from simulateIteration_chain [OF first slots f16 fqf fsf codes Suc.prems(2)]
  have "\<forall>d. chainOK (Suc n) (ts1 d)" .
  from Suc.IH [OF rest this] show ?case by simp
qed

lemma concat_perm:
  assumes "mset xs = mset ys"
  shows "mset (concat (map f xs)) = mset (concat (map f ys))"
proof -
  have "mset (concat (map f zs)) = sum_mset (image_mset (\<lambda>z. mset (f z)) (mset zs))" for zs
    by (induction zs) simp_all
  with assms show ?thesis by simp
qed

lemma concat_js_put:
  "mset (concat (map f (js_put kvs k v))) \<subseteq># mset (concat (map f kvs)) + mset (f (k, v))"
proof (induction kvs)
  case Nil
  show ?case by simp
next
  case (Cons kv kvs)
  obtain k' v' where kv: "kv = (k', v')" by (cases kv)
  show ?case
  proof (cases "k' = k")
    case True
    then show ?thesis by (simp add: kv)
  next
    case False
    from Cons.IH have "mset (f (k', v')) + mset (concat (map f (js_put kvs k v))) \<subseteq>#
        mset (f (k', v')) + (mset (concat (map f kvs)) + mset (f (k, v)))"
      by (simp only: mset_subset_eq_mono_add_left_cancel)
    with False show ?thesis by (simp add: kv add.assoc)
  qed
qed

lemma code_buildTeam: "code (buildTeam r e n c) = c"
  by (simp add: buildTeam_def Let_def)

lemma buildAllTeams_codes_aux:
  "mset (concat (map (\<lambda>gt. map code (snd gt))
       (fold (\<lambda>(groupName, codes) allTeams.
               js_put allTeams groupName (map (buildTeam r e n) codes)) xs acc))) \<subseteq>#
   mset (concat (map (\<lambda>gt. map code (snd gt)) acc)) + mset (concat (map snd xs))"
proof (induction xs arbitrary: acc)
  case Nil
  show ?case by simp
next
  case (Cons x xs)
  obtain g cs where x: "x = (g, cs)" by (cases x)
  let ?f = "\<lambda>gt. map code (snd gt)"
  let ?acc = "js_put acc g (map (buildTeam r e n) cs)"
  have cs: "map code (map (buildTeam r e n) cs) = cs"
    by (simp add: comp_def code_buildTeam)
  have one: "mset (concat (map ?f ?acc)) \<subseteq># mset (concat (map ?f acc)) + mset cs"
    using concat_js_put [of ?f acc g "map (buildTeam r e n) cs"]
    by (simp only: snd_conv cs)
  have "mset (concat (map ?f (fold (\<lambda>(groupName, codes) allTeams.
               js_put allTeams groupName (map (buildTeam r e n) codes)) xs ?acc))) \<subseteq>#
      mset (concat (map ?f ?acc)) + mset (concat (map snd xs))"
    by (rule Cons.IH)
  also have "\<dots> \<subseteq># (mset (concat (map ?f acc)) + mset cs) + mset (concat (map snd xs))"
    using one by (simp only: mset_subset_eq_mono_add_right_cancel)
  finally show ?case by (simp add: x add.assoc)
qed

lemma buildAllTeams_codes:
  assumes "distinct (concat (map snd gs))"
  shows "distinct (concat (map (\<lambda>gt. map code (snd gt)) (js_entries (buildAllTeams gs r e n))))"
proof -
  let ?f = "\<lambda>gt. map code (snd gt)"
  have "mset (concat (map ?f (js_entries (buildAllTeams gs r e n)))) =
      mset (concat (map ?f (buildAllTeams gs r e n)))"
    by (rule concat_perm) (rule mset_js_entries)
  also have "\<dots> \<subseteq># mset (concat (map snd (js_entries gs)))"
    using buildAllTeams_codes_aux [of r e n "js_entries gs" "[]"]
    by (simp add: buildAllTeams_def)
  also have "mset (concat (map snd (js_entries gs))) = mset (concat (map snd gs))"
    by (rule concat_perm) (rule mset_js_entries)
  finally have sub: "mset (concat (map ?f (js_entries (buildAllTeams gs r e n)))) \<subseteq>#
      mset (concat (map snd gs))" .
  show ?thesis
  proof (rule ccontr)
    assume "\<not> ?thesis"
    then obtain c where "count (mset (concat (map ?f (js_entries (buildAllTeams gs r e n))))) c > 1"
      by (metis distinct_count_atmost_1 count_mset_0_iff gr0I less_one linorder_neqE_nat not_less_zero)
    with mset_subset_eq_count [OF sub, of c]
    have "count (mset (concat (map snd gs))) c > 1" by linarith
    with assms show False by (simp add: distinct_count_atmost_1 split: if_splits)
  qed
qed

lemma fold_js_put_values:
  assumes "(g, v) \<in> set (fold (\<lambda>(k, x) acc. js_put acc k (F x)) xs acc)"
  shows "(g, v) \<in> set acc \<or> (\<exists>x \<in> snd ` set xs. v = F x)"
  using assms
proof (induction xs arbitrary: acc)
  case Nil
  then show ?case by simp
next
  case (Cons y xs)
  obtain k x where y: "y = (k, x)" by (cases y)
  have put: "(g, v) \<in> set (js_put kvs k' x') \<Longrightarrow> (g, v) \<in> set kvs \<or> v = x'" for kvs k' x'
    by (induction kvs) (auto split: if_splits)
  from Cons.prems have "(g, v) \<in> set (fold (\<lambda>(k, x) acc. js_put acc k (F x)) xs (js_put acc k (F x)))"
    by (simp add: y)
  from Cons.IH [OF this] put [of acc k "F x"] show ?case by (auto simp: y)
qed

lemma initial_chain: "chainOK 0 (initialStats d)"
  by (simp add: chainOK_def initialStats_def)

lemma resultRow_chain:
  assumes "chainOK n (ts (code t))" and "0 < n"
  shows "0 \<le> winProb (resultRow ts n t) \<and>
         winProb (resultRow ts n t) \<le> finalProb (resultRow ts n t) \<and>
         finalProb (resultRow ts n t) \<le> sfProb (resultRow ts n t) \<and>
         sfProb (resultRow ts n t) \<le> qfProb (resultRow ts n t) \<and>
         qfProb (resultRow ts n t) \<le> r16Prob (resultRow ts n t) \<and>
         r16Prob (resultRow ts n t) \<le> r32Prob (resultRow ts n t) \<and>
         r32Prob (resultRow ts n t) \<le> 1"
  using assms by (simp add: resultRow_def Let_def chainOK_def divide_right_mono)

lemma length_groupRuns [simp]: "length (groupRuns gts rnd k) = length gts"
  by (induction gts rnd k rule: groupRuns.induct) simp_all

lemma groupRuns_three:
  assumes "\<forall>(g, teams) \<in> set gts. 3 \<le> length (remdups (map code teams))"
  shows "\<forall>(g, st) \<in> set (groupRuns gts rnd k). 3 \<le> length st"
  using assms
  by (induction gts rnd k rule: groupRuns.induct) (simp_all add: length_simulateGroup)

lemma simulateGroups_third_places:
  assumes "\<forall>(g, teams) \<in> set gts. 3 \<le> length (remdups (map code teams))"
  shows "fst (snd (simulateGroups gts rnd k S T ts)) =
         T @ map (\<lambda>(g, st). (st ! 2)\<lparr>st_group := Some g\<rparr>) (groupRuns gts rnd k)"
  using assms
proof (induction gts arbitrary: k S T ts)
  case Nil
  show ?case by simp
next
  case (Cons gt gts)
  obtain g teams where gt: "gt = (g, teams)" by (cases gt)
  from Cons.prems gt have "3 \<le> length (fst (simulateGroup teams rnd k))"
    by (simp add: length_simulateGroup)
  then have s: "js_index (fst (simulateGroup teams rnd k)) 2 = Some (fst (simulateGroup teams rnd k) ! 2)"
    by (simp add: js_index_def)
  from Cons.prems have rest: "\<forall>(g, teams) \<in> set gts. 3 \<le> length (remdups (map code teams))"
    by simp
  show ?case
    by (simp add: gt Let_def s Cons.IH [OF rest])
qed

lemma r32Count_creditStandings:
  "r32Count (creditStandings ts st d) = r32Count (ts d) + count_list (map st_code (take 2 st)) d"
proof -
  have "r32Count (creditStandings ts st d) = counters (creditStandings ts st d) ! 0"
    by (simp add: counters_def)
  then show ?thesis by (simp add: counters_creditStandings)
qed

lemma simulateGroups_top_two:
  "r32Count (fst (snd (snd (simulateGroups gts rnd k S T ts))) d) =
   r32Count (ts d) +
   count_list (map st_code (concat (map (\<lambda>(g, st). take 2 st) (groupRuns gts rnd k)))) d"
proof (induction gts arbitrary: k S T ts)
  case Nil
  show ?case by simp
next
  case (Cons gt gts)
  obtain g teams where gt: "gt = (g, teams)" by (cases gt)
  show ?case
    by (simp add: gt Let_def Cons.IH r32Count_creditStandings)
qed

lemma r32Count_fold_credit:
  assumes "creditsAt j credit" and "0 < j"
  shows "r32Count (fold (\<lambda>c s. credit s c) W ts d) = r32Count (ts d)"
proof -
  have "r32Count (fold (\<lambda>c s. credit s c) W ts d) = counters (fold (\<lambda>c s. credit s c) W ts d) ! 0"
    by (simp add: counters_def)
  also have "\<dots> = counters (ts d) ! 0"
    using assms(2) by (simp add: counters_fold_credit [OF assms(1)])
  finally show ?thesis by (simp add: counters_def)
qed

lemma simulateIteration_r32Count:
  assumes it: "simulateIteration allTeams ko rnd (ts, k) = Inr (ts', k')"
  shows "r32Count (ts' d) =
     r32Count (markThirds (fst (snd (snd (simulateGroups (js_entries allTeams) rnd k [] [] ts))))
       (qualifyThirds (fst (snd (simulateGroups (js_entries allTeams) rnd k [] [] ts)))) d)"
proof -
  let ?G = "simulateGroups (js_entries allTeams) rnd k [] [] ts"
  define S where "S = fst ?G"
  define T where "T = fst (snd ?G)"
  define ts1 where "ts1 = fst (snd (snd ?G))"
  define k1 where "k1 = snd (snd (snd ?G))"
  define Q where "Q = qualifyThirds T"
  define ts2 where "ts2 = markThirds ts1 Q"
  have G: "?G = (S, T, ts1, k1)" by (simp add: S_def T_def ts1_def k1_def)
  from it G obtain Q' w32 ts3 k3 where
    r32: "simulateR32 S rnd (r32 ko) (Q, Map.empty, ts2, k1) = Inr (Q', w32, ts3, k3)"
    by (auto simp: simulateIteration_def Let_def Q_def ts2_def split: sum.splits)
  from it G r32 obtain w16 ts4 k4 where
    r16: "simulateRound creditQF w32 rnd (r16 ko) (Map.empty, ts3, k3) = Inr (w16, ts4, k4)"
    by (auto simp: simulateIteration_def Let_def Q_def ts2_def split: sum.splits)
  from it G r32 r16 obtain wqf ts5 k5 where
    rqf: "simulateRound creditSF w16 rnd (qf ko) (Map.empty, ts4, k4) = Inr (wqf, ts5, k5)"
    by (auto simp: simulateIteration_def Let_def Q_def ts2_def split: sum.splits)
  from it G r32 r16 rqf obtain wsf ts6 k6 where
    rsf: "simulateRound creditFinal wqf rnd (sf ko) (Map.empty, ts5, k5) = Inr (wsf, ts6, k6)"
    by (auto simp: simulateIteration_def Let_def Q_def ts2_def split: sum.splits)
  from it G r32 r16 rqf rsf have
    fin: "simulateFinal (final ko) wsf rnd (ts6, k6) = Inr (ts', k')"
    by (auto simp: simulateIteration_def Let_def Q_def ts2_def split: sum.splits)
  from simulateR32_credits [OF r32] have a: "r32Count (ts3 d) = r32Count (ts2 d)"
    by (auto simp: r32Count_fold_credit [OF creditsAt_R16])
  from simulateRound_credits [OF r16] have b: "r32Count (ts4 d) = r32Count (ts3 d)"
    by (auto simp: r32Count_fold_credit [OF creditsAt_QF])
  from simulateRound_credits [OF rqf] have c: "r32Count (ts5 d) = r32Count (ts4 d)"
    by (auto simp: r32Count_fold_credit [OF creditsAt_SF])
  from simulateRound_credits [OF rsf] have e: "r32Count (ts6 d) = r32Count (ts5 d)"
    by (auto simp: r32Count_fold_credit [OF creditsAt_Final])
  from simulateFinal_credits [OF fin] have f: "r32Count (ts' d) = r32Count (ts6 d)"
    by (auto simp: r32Count_fold_credit [OF creditsAt_Win])
  show ?thesis
    unfolding T_def [symmetric] ts1_def [symmetric] Q_def [symmetric] ts2_def [symmetric]
    using a b c e f by simp
qed
section \<open>The two-group example tournament, evaluated\<close>

lemma ex_entries: "js_entries [(''A'', x), (''B'', y)] = [(''A'', x), (''B'', y)]"
  by (simp add: js_entries_def is_array_index_def is_digit_def)

lemma ex_allTeams:
  "buildAllTeams [(''A'', [''A1'', ''A2'']), (''B'', [''B1'', ''B2''])]
     (\<lambda>_. None) (\<lambda>_. None) (\<lambda>_. None) =
   [(''A'', [exPlainTeam ''A1'', exPlainTeam ''A2'']),
    (''B'', [exPlainTeam ''B1'', exPlainTeam ''B2''])]"
  by (simp add: buildAllTeams_def ex_entries buildTeam_def Let_def startsWith_def js_or_def
      nameOr_def exPlainTeam_def)

lemma ex_indexPairs_2: "indexPairs (Suc (Suc 0)) = [(0, 1)]"
  by (simp add: indexPairs_def)

lemma ex_group_win: "simulateMatch 1400 1400 0 = Win"
  by (simp add: simulateMatch_def getMatchProbabilities_def Let_def)

lemma ex_simulateGroup_A:
  "simulateGroup [exPlainTeam ''A1'', exPlainTeam ''A2''] (\<lambda>_. 0) k =
         ([exPlace ''A1'' 3 1, exPlace ''A2'' 0 (- 1)], Suc k)"
  by (simp add: simulateGroup_def Let_def ex_indexPairs_2 initGroupStats_def exPlainTeam_def
      ex_group_win groupResult_def js_modify_def js_entries_def is_array_index_def is_digit_def
      toStanding_def js_sort_def byStanding_def exPlace_def)

lemma ex_simulateGroup_B:
  "simulateGroup [exPlainTeam ''B1'', exPlainTeam ''B2''] (\<lambda>_. 0) k =
         ([exPlace ''B1'' 3 1, exPlace ''B2'' 0 (- 1)], Suc k)"
  by (simp add: simulateGroup_def Let_def ex_indexPairs_2 initGroupStats_def exPlainTeam_def
      ex_group_win groupResult_def js_modify_def js_entries_def is_array_index_def is_digit_def
      toStanding_def js_sort_def byStanding_def exPlace_def)

lemma ex_simulateGroups:
  "simulateGroups [(''A'', [exPlainTeam ''A1'', exPlainTeam ''A2'']),
                   (''B'', [exPlainTeam ''B1'', exPlainTeam ''B2''])] (\<lambda>_. 0) 0 [] [] initialStats =
   ([(''A'', [exPlace ''A1'' 3 1, exPlace ''A2'' 0 (- 1)]),
     (''B'', [exPlace ''B1'' 3 1, exPlace ''B2'' 0 (- 1)])], [], exStats1, 2)"
  by (simp add: ex_simulateGroup_A ex_simulateGroup_B Let_def js_index_def exStats1_def)

lemma ex_knockout_win: "simulateKnockoutMatch 1400 1400 0 = 1"
  by (simp add: simulateKnockoutMatch_def)

lemma ex_simulateR32:
  "simulateR32 [(''A'', [exPlace ''A1'' 3 1, exPlace ''A2'' 0 (- 1)]),
                (''B'', [exPlace ''B1'' 3 1, exPlace ''B2'' 0 (- 1)])] (\<lambda>_. 0)
     [SlotMatch 3 ''1A'' ''2B'', SlotMatch 4 ''1B'' ''2A''] ([], Map.empty, exStats1, 2) =
   Inr ([], exWinners32, exStats3, 4)"
  by (simp add: resolveTeam1_def resolveTeam2_def parseSlot_def js_index_def parseInt1_def
      is_digit_def digit_value_def lookupStanding_def js_key_def exPlace_def ex_knockout_win
      exStats3_def exWinners32_def)

lemma ex_winnerOf_32:
  "winnerOf exWinners32 [3, 4] 0 = Some (exPlace ''A1'' 3 1)"
  "winnerOf exWinners32 [3, 4] (Suc 0) = Some (exPlace ''B1'' 3 1)"
  by (simp_all add: winnerOf_def js_index_def exWinners32_def)

lemma ex_round16_one:
  "simulateRound creditQF exWinners32 (\<lambda>_. 0) [PrevMatch 17 [3, 4]] (Map.empty, exStats3, 4) =
   Inr ([17 \<mapsto> exPlace ''A1'' 3 1], creditQF exStats3 ''A1'', 5)"
  by (simp add: ex_winnerOf_32 exPlace_def ex_knockout_win)

lemma ex_round16_two:
  "simulateRound creditQF exWinners32 (\<lambda>_. 0) [PrevMatch 17 [3, 4], PrevMatch 18 [3, 4]]
     (Map.empty, exStats3, 4) =
   Inr ([17 \<mapsto> exPlace ''A1'' 3 1, 18 \<mapsto> exPlace ''A1'' 3 1],
        creditQF (creditQF exStats3 ''A1'') ''A1'', 6)"
  by (simp add: ex_winnerOf_32 exPlace_def ex_knockout_win Let_def)

lemma ex_final: "simulateFinal [PrevMatch 31 [29, 30]] Map.empty rnd st = Inr st"
  by (simp add: simulateFinal_def winnerOf_def js_index_def)

lemma ex_iteration_one:
  "simulateIteration [(''A'', [exPlainTeam ''A1'', exPlainTeam ''A2'']),
                      (''B'', [exPlainTeam ''B1'', exPlainTeam ''B2''])]
     (knockout (exGroupData [PrevMatch 17 [3, 4]])) (\<lambda>_. 0) (initialStats, 0) =
   Inr (creditQF exStats3 ''A1'', 5)"
  unfolding simulateIteration_def
  by (simp add: ex_entries ex_simulateGroups qualifyThirds_def js_sort_def markThirds_def
      exGroupData_def ex_simulateR32 ex_round16_one ex_final
      del: simulateGroups.simps simulateR32.simps simulateRound.simps(2))

lemma ex_iteration_two:
  "simulateIteration [(''A'', [exPlainTeam ''A1'', exPlainTeam ''A2'']),
                      (''B'', [exPlainTeam ''B1'', exPlainTeam ''B2''])]
     (knockout (exGroupData [PrevMatch 17 [3, 4], PrevMatch 18 [3, 4]])) (\<lambda>_. 0)
     (initialStats, 0) =
   Inr (creditQF (creditQF exStats3 ''A1'') ''A1'', 6)"
  unfolding simulateIteration_def
  by (simp add: ex_entries ex_simulateGroups qualifyThirds_def js_sort_def markThirds_def
      exGroupData_def ex_simulateR32 ex_round16_two ex_final
      del: simulateGroups.simps simulateR32.simps simulateRound.simps(2))

lemma ex_count:
  "r32Count s = counters s ! 0" "r16Count s = counters s ! Suc 0"
  "qfCount s = counters s ! Suc (Suc 0)"
  by (simp_all add: counters_def)

lemma ex_counters0: "counters (initialStats c) = [0, 0, 0, 0, 0, 0]"
  by (simp add: counters_def initialStats_def)

lemma ex_counters1:
  "counters (exStats1 c) =
     [if c \<in> {''A1'', ''A2'', ''B1'', ''B2''} then 1 else 0, 0, 0, 0, 0, 0]"
  by (simp add: exStats1_def counters_creditStandings ex_count(1) ex_counters0 exPlace_def)

lemma ex_counters3:
  "counters (exStats3 c) =
     [if c \<in> {''A1'', ''A2'', ''B1'', ''B2''} then 1 else 0,
      if c \<in> {''A1'', ''B1''} then 1 else 0, 0, 0, 0, 0]"
  by (simp add: exStats3_def counters_creditR16 ex_count(2) ex_counters1)

lemma ex_rowChain:
  "rowChain (resultRow ts n t) =
     (code t, map (\<lambda>x. real x / real n) (counters (ts (code t))))"
  by (simp add: rowChain_def resultRow_def Let_def counters_def)

lemma ex_results_one:
  "map_sum id (map (map_prod id (map rowChain)))
     (simulateTournament (exGroupData [PrevMatch 17 [3, 4]]) (\<lambda>_. None) (\<lambda>_. None) (\<lambda>_. None)
        1 (\<lambda>_. 0)) =
   Inr [(''A'', [(''A1'', [1, 1, 1, 0, 0, 0]), (''A2'', [1, 0, 0, 0, 0, 0])]),
        (''B'', [(''B1'', [1, 1, 0, 0, 0, 0]), (''B2'', [1, 0, 0, 0, 0, 0])])]"
proof -
  have g: "groups (exGroupData r) = [(''A'', [''A1'', ''A2'']), (''B'', [''B1'', ''B2''])]" for r
    by (simp add: exGroupData_def)
  have c: "counters (creditQF exStats3 ''A1'' c) =
     [if c \<in> {''A1'', ''A2'', ''B1'', ''B2''} then 1 else 0,
      if c \<in> {''A1'', ''B1''} then 1 else 0, if c = ''A1'' then 1 else 0, 0, 0, 0]" for c
    by (simp add: counters_creditQF ex_count(3) ex_counters3)
  have r: "r32Prob (resultRow ts n t) = real (counters (ts (code t)) ! 0) / real n" for ts n t
    by (simp add: resultRow_def Let_def counters_def)
  have l: "simulateLoop 1 a ko rnd st =
      (case simulateIteration a ko rnd st of Inl e \<Rightarrow> Inl e | Inr st' \<Rightarrow> Inr st')" for a ko rnd st
    by (simp split: sum.splits)
  show ?thesis
    unfolding simulateTournament_def g ex_allTeams Let_def l ex_iteration_one
    by (simp add: ex_entries js_sort_def byR32Desc_def r c ex_rowChain exPlainTeam_def)
qed

lemma ex_results_two:
  "map_sum id (map (map_prod id (map rowChain)))
     (simulateTournament (exGroupData [PrevMatch 17 [3, 4], PrevMatch 18 [3, 4]]) (\<lambda>_. None) (\<lambda>_. None) (\<lambda>_. None)
        1 (\<lambda>_. 0)) =
   Inr [(''A'', [(''A1'', [1, 1, 2, 0, 0, 0]), (''A2'', [1, 0, 0, 0, 0, 0])]),
        (''B'', [(''B1'', [1, 1, 0, 0, 0, 0]), (''B2'', [1, 0, 0, 0, 0, 0])])]"
proof -
  have g: "groups (exGroupData r) = [(''A'', [''A1'', ''A2'']), (''B'', [''B1'', ''B2''])]" for r
    by (simp add: exGroupData_def)
  have c: "counters (creditQF (creditQF exStats3 ''A1'') ''A1'' c) =
     [if c \<in> {''A1'', ''A2'', ''B1'', ''B2''} then 1 else 0,
      if c \<in> {''A1'', ''B1''} then 1 else 0, if c = ''A1'' then 2 else 0, 0, 0, 0]" for c
    by (simp add: counters_creditQF ex_count(3) ex_counters3)
  have r: "r32Prob (resultRow ts n t) = real (counters (ts (code t)) ! 0) / real n" for ts n t
    by (simp add: resultRow_def Let_def counters_def)
  have l: "simulateLoop 1 a ko rnd st =
      (case simulateIteration a ko rnd st of Inl e \<Rightarrow> Inl e | Inr st' \<Rightarrow> Inr st')" for a ko rnd st
    by (simp split: sum.splits)
  show ?thesis
    unfolding simulateTournament_def g ex_allTeams Let_def l ex_iteration_two
    by (simp add: ex_entries js_sort_def byR32Desc_def r c ex_rowChain exPlainTeam_def)
qed

lemma ex_slots:
  "positionSlots [SlotMatch 3 ''1A'' ''2B'', SlotMatch 4 ''1B'' ''2A''] =
     [(1, ''A''), (2, ''B''), (1, ''B''), (2, ''A'')]"
  by (simp add: positionSlots_def slotKey_def parseSlot_def js_index_def parseInt1_def
      is_digit_def digit_value_def js_key_def)

section \<open>Double-precision arithmetic: evaluation\<close>

lemma pow2_powr: "pow2 e = 2 powr of_int e"
proof (cases "0 \<le> e")
  case True
  then have "2 powr of_int e = (2::real) powr real (nat e)" by simp
  also have "\<dots> = 2 ^ nat e" by (rule powr_realpow) simp
  finally show ?thesis using True by (simp add: pow2_def)
next
  case False
  then have "(2::real) powr of_int e = 2 powr (- real (nat (- e)))" by simp
  also have "\<dots> = 1 / 2 powr real (nat (- e))" by (simp add: powr_minus divide_inverse)
  also have "\<dots> = 1 / 2 ^ nat (- e)" by (simp add: powr_realpow)
  finally show ?thesis using False by (simp add: pow2_def)
qed

lemma fl_at:
  assumes lo: "pow2 e \<le> \<bar>x\<bar>" and hi: "\<bar>x\<bar> < pow2 (e + 1)"
  shows "fl x = of_int (rne (x / pow2 (e - 52))) * pow2 (e - 52)"
proof -
  have pos: "0 < \<bar>x\<bar>" using lo by (simp add: pow2_powr) (smt (verit) powr_gt_zero)
  have "of_int e \<le> log 2 \<bar>x\<bar>"
    using lo pos by (simp add: pow2_powr le_log_iff)
  moreover have "log 2 \<bar>x\<bar> < of_int e + 1"
    using hi pos by (simp add: pow2_powr log_less_iff)
  ultimately have "\<lfloor>log 2 \<bar>x\<bar>\<rfloor> = e" by linarith
  with pos show ?thesis by (simp add: fl_def Let_def)
qed

lemma fl_0: "fl 0 = 0" by (simp add: fl_def)

lemma ex_fl_1: "fl (- 400) = - 400"
  by (subst fl_at [where e = "8"]) (simp_all add: pow2_def rne_def)

lemma ex_fl_2: "fl (- 1) = - 1"
  by (subst fl_at [where e = "0"]) (simp_all add: pow2_def rne_def)

lemma ex_fl_3: "fl (1 / 10) = 3602879701896397 / 36028797018963968"
  by (subst fl_at [where e = "- 4"]) (simp_all add: pow2_def rne_def)

lemma ex_fl_4: "fl (39631676720860365 / 36028797018963968) = 2476979795053773 / 2251799813685248"
  by (subst fl_at [where e = "0"]) (simp_all add: pow2_def rne_def)

lemma ex_fl_5: "fl (2251799813685248 / 2476979795053773) = 8188362958855447 / 9007199254740992"
  by (subst fl_at [where e = "- 1"]) (simp_all add: pow2_def rne_def)

lemma ex_fl_6: "fl (1) = 1"
  by (subst fl_at [where e = "0"]) (simp_all add: pow2_def rne_def)

lemma ex_fl_7: "fl (2) = 2"
  by (subst fl_at [where e = "1"]) (simp_all add: pow2_def rne_def)

lemma ex_fl_8: "fl (1 / 2) = 1 / 2"
  by (subst fl_at [where e = "- 1"]) (simp_all add: pow2_def rne_def)

lemma ex_fl_9: "fl (1 / 4) = 1 / 4"
  by (subst fl_at [where e = "- 2"]) (simp_all add: pow2_def rne_def)

lemma ex_fl_10: "fl (8188362958855447 / 18014398509481984) = 8188362958855447 / 18014398509481984"
  by (subst fl_at [where e = "- 2"]) (simp_all add: pow2_def rne_def)

lemma ex_fl_11: "fl (818836295885545 / 9007199254740992) = 818836295885545 / 9007199254740992"
  by (subst fl_at [where e = "- 4"]) (simp_all add: pow2_def rne_def)

lemma ex_fl_12: "fl (400) = 400"
  by (subst fl_at [where e = "8"]) (simp_all add: pow2_def rne_def)

lemma ex_fl_13: "fl (10) = 10"
  by (subst fl_at [where e = "3"]) (simp_all add: pow2_def rne_def)

lemma ex_fl_14: "fl (11) = 11"
  by (subst fl_at [where e = "3"]) (simp_all add: pow2_def rne_def)

lemma ex_fl_15: "fl (1 / 11) = 3275345183542179 / 36028797018963968"
  by (subst fl_at [where e = "- 4"]) (simp_all add: pow2_def rne_def)

lemma ex_fl_16: "fl (3275345183542179 / 72057594037927936) = 3275345183542179 / 72057594037927936"
  by (subst fl_at [where e = "- 5"]) (simp_all add: pow2_def rne_def)

lemma ex_fl_17: "fl (3275345183542179 / 36028797018963968) = 3275345183542179 / 36028797018963968"
  by (subst fl_at [where e = "- 4"]) (simp_all add: pow2_def rne_def)

lemma ex_fl_18: "fl (2681971517838238379146663902555 / 324518553658426726783156020576256) = 2382069224394313 / 288230376151711744"
  by (subst fl_at [where e = "- 7"]) (simp_all add: pow2_def rne_def)

lemma ex_fl_19: "fl (6704928794595595538448511813615 / 81129638414606681695789005144064) = 2977586530492891 / 36028797018963968"
  by (subst fl_at [where e = "- 4"]) (simp_all add: pow2_def rne_def)

lemma ex_fl_20: "fl (19354312448203785 / 36028797018963968) = 2419289056025473 / 4503599627370496"
  by (subst fl_at [where e = "- 1"]) (simp_all add: pow2_def rne_def)

lemma ex_fl_21: "fl (2419289056025473 / 9007199254740992) = 2419289056025473 / 9007199254740992"
  by (subst fl_at [where e = "- 2"]) (simp_all add: pow2_def rne_def)

lemma ex_fl_22: "fl (13026941070906393 / 18014398509481984) = 1628367633863299 / 2251799813685248"
  by (subst fl_at [where e = "- 1"]) (simp_all add: pow2_def rne_def)

lemma ex_fl_23: "fl (8932759591478669 / 9007199254740992) = 8932759591478669 / 9007199254740992"
  by (subst fl_at [where e = "- 1"]) (simp_all add: pow2_def rne_def)

lemma ex_fl_24: "fl (288230376151711721 / 288230376151711744) = 9007199254740991 / 9007199254740992"
  by (subst fl_at [where e = "- 1"]) (simp_all add: pow2_def rne_def)

lemmas ex_fl = ex_fl_1 ex_fl_2 ex_fl_3 ex_fl_4 ex_fl_5 ex_fl_6 ex_fl_7 ex_fl_8 ex_fl_9 ex_fl_10 ex_fl_11 ex_fl_12 ex_fl_13 ex_fl_14 ex_fl_15 ex_fl_16 ex_fl_17 ex_fl_18 ex_fl_19 ex_fl_20 ex_fl_21 ex_fl_22 ex_fl_23 ex_fl_24

lemma ex_elo_level: "eloWinProbability64 1800 1800 = 1 / 2"
  by (simp add: eloWinProbability64_def fadd_def fsub_def fdiv_def pow64_def fl_0 ex_fl)

lemma ex_elo_up: "eloWinProbability64 1800 1400 = 8188362958855447 / 9007199254740992"
  by (simp add: eloWinProbability64_def fadd_def fsub_def fdiv_def pow64_def fl_0 ex_fl
      powr_minus)

lemma ex_elo_down: "eloWinProbability64 1400 1800 = 3275345183542179 / 36028797018963968"
  by (simp add: eloWinProbability64_def fadd_def fsub_def fdiv_def pow64_def fl_0 ex_fl)

lemma ex_path_sorted:
  "js_sort byEloDesc
     (map (\<lambda>c. \<lparr>tp_code = Some c, tp_elo = js_or (exPathRatings c) 1400, tp_prob = 0\<rparr>)
        (path_teams exPath)) =
   [\<lparr>tp_code = Some ''A'', tp_elo = 1800, tp_prob = 0\<rparr>,
    \<lparr>tp_code = Some ''B'', tp_elo = 1800, tp_prob = 0\<rparr>,
    \<lparr>tp_code = Some ''C'', tp_elo = 1800, tp_prob = 0\<rparr>,
    \<lparr>tp_code = Some ''D'', tp_elo = 1400, tp_prob = 0\<rparr>]"
  by (simp add: exPath_def exPathRatings_def js_or_def js_sort_def byEloDesc_def)

lemma ex_path_probs:
  "map_sum id (\<lambda>r. map tp_prob (sim_teams r)) (simulateUEFAPath64 exPath exPathRatings) =
   Inr [8188362958855447 / 18014398509481984, 2419289056025473 / 9007199254740992,
        2419289056025473 / 9007199254740992, 2382069224394313 / 288230376151711744]"
  unfolding simulateUEFAPath64_def Let_def ex_path_sorted
  by (simp add: ex_elo_level ex_elo_up ex_elo_down fadd_def fsub_def fmul_def ex_fl
      js_sort_def byProbDesc_def)

section \<open>Rating model and playoff resolvers: claims\<close>

lemma four_team_total:
  fixes p q :: real and e :: "real \<Rightarrow> real \<Rightarrow> real"
  assumes compl: "\<And>x y. e x y + e y x = 1"
  shows "p * (q * e a b + (1 - q) * e a c) + q * (p * e b a + (1 - p) * e b d) +
         (1 - q) * (p * e c a + (1 - p) * e c d) + (1 - p) * (q * e d b + (1 - q) * e d c) = 1"
proof -
  have ba: "e b a = 1 - e a b" and ca: "e c a = 1 - e a c"
    and bd: "e b d = 1 - e d b" and cd: "e c d = 1 - e d c"
    using compl [of a b] compl [of a c] compl [of d b] compl [of d c] by linarith+
  show ?thesis unfolding ba ca bd cd by (simp add: algebra_simps)
qed

lemma simulateBracket_sum: "sum_list (map tp_prob (sim_teams (simulateBracket b r))) = 1"
  by (simp add: simulateBracket_def Let_def sum_list_js_sort algebra_simps)

lemma simulateUEFAPath_sum:
  assumes "length (path_teams p) = 4"
  shows "\<exists>res. simulateUEFAPath p r = Inr res \<and> length (sim_teams res) = 4 \<and>
           sum_list (map tp_prob (sim_teams res)) = 1"
proof -
  let ?es = "map (\<lambda>c. \<lparr>tp_code = Some c, tp_elo = js_or (r c) 1400, tp_prob = 0\<rparr>) (path_teams p)"
  have "length (js_sort byEloDesc ?es) = 4"
    using assms by (simp add: length_js_sort)
  then obtain t1 t2 t3 t4 where srt: "js_sort byEloDesc ?es = [t1, t2, t3, t4]"
    by (auto simp: length_Suc_conv numeral_eq_Suc)
  have total: "eloWinProbability (tp_elo t1) (tp_elo t4) *
      (eloWinProbability (tp_elo t2) (tp_elo t3) * eloWinProbability (tp_elo t1) (tp_elo t2) +
       (1 - eloWinProbability (tp_elo t2) (tp_elo t3)) * eloWinProbability (tp_elo t1) (tp_elo t3)) +
    eloWinProbability (tp_elo t2) (tp_elo t3) *
      (eloWinProbability (tp_elo t1) (tp_elo t4) * eloWinProbability (tp_elo t2) (tp_elo t1) +
       (1 - eloWinProbability (tp_elo t1) (tp_elo t4)) * eloWinProbability (tp_elo t2) (tp_elo t4)) +
    (1 - eloWinProbability (tp_elo t2) (tp_elo t3)) *
      (eloWinProbability (tp_elo t1) (tp_elo t4) * eloWinProbability (tp_elo t3) (tp_elo t1) +
       (1 - eloWinProbability (tp_elo t1) (tp_elo t4)) * eloWinProbability (tp_elo t3) (tp_elo t4)) +
    (1 - eloWinProbability (tp_elo t1) (tp_elo t4)) *
      (eloWinProbability (tp_elo t2) (tp_elo t3) * eloWinProbability (tp_elo t4) (tp_elo t2) +
       (1 - eloWinProbability (tp_elo t2) (tp_elo t3)) * eloWinProbability (tp_elo t4) (tp_elo t3)) = 1"
    by (rule four_team_total) (rule eloWinProbability_compl)
  show ?thesis
    using total
    by (simp add: simulateUEFAPath_def Let_def srt sum_list_js_sort length_js_sort add.assoc)
qed

text \<open>
  Claim C1, as stated, fails: the source computes in double precision, and the four win
  probabilities that \<open>simulateUEFAPath\<close> returns for three teams rated 1800 and one
  team without a rating (1400 by default) are the doubles 0.45454545454545453,
  0.26859504132231404, 0.26859504132231404 and 0.008264462809917359. Their exact sum is
  \<open>1 - 7 / 2 ^ 58\<close>, and added up in double precision, in the order returned, they give
  \<open>1 - 1 / 2 ^ 53\<close>, that is 0.9999999999999999.
\<close>

theorem playoff_path_doubles_do_not_sum_to_one:
  "map_sum id (\<lambda>r. map tp_prob (sim_teams r)) (simulateUEFAPath64 exPath exPathRatings) =
     Inr [8188362958855447 / 18014398509481984, 2419289056025473 / 9007199254740992,
          2419289056025473 / 9007199254740992, 2382069224394313 / 288230376151711744] \<and>
   map_sum id (\<lambda>r. sum_list (map tp_prob (sim_teams r)))
     (simulateUEFAPath64 exPath exPathRatings) = Inr (1 - 7 / 2 ^ 58) \<and>
   map_sum id (\<lambda>r. foldl fadd 0 (map tp_prob (sim_teams r)))
     (simulateUEFAPath64 exPath exPathRatings) = Inr (1 - 1 / 2 ^ 53)"
proof (cases "simulateUEFAPath64 exPath exPathRatings")
  case (Inl e)
  with ex_path_probs show ?thesis by simp
next
  case (Inr r)
  with ex_path_probs have
    "map tp_prob (sim_teams r) =
       [8188362958855447 / 18014398509481984, 2419289056025473 / 9007199254740992,
        2419289056025473 / 9007199254740992, 2382069224394313 / 288230376151711744]"
    by simp
  with Inr show ?thesis by (simp add: fadd_def ex_fl)
qed

text \<open>
  Claim C1, amended. When the arithmetic of the resolvers is carried out exactly, over the
  reals, the three win probabilities returned by \<open>simulateBracket\<close> sum to exactly 1
  for every 3-team bracket and every rating map, and for every path of four teams
  \<open>simulateUEFAPath\<close> returns four win probabilities that sum to exactly 1: the sums
  carry no sampling error, and they miss 1 by the rounding of the double-precision
  operations only.
\<close>

theorem playoff_resolver_probabilities_sum_to_one:
  "length (sim_teams (simulateBracket b r)) = 3 \<and>
   sum_list (map tp_prob (sim_teams (simulateBracket b r))) = 1 \<and>
   (length (path_teams p) = 4 \<longrightarrow>
      (\<exists>res. simulateUEFAPath p r = Inr res \<and> length (sim_teams res) = 4 \<and>
             sum_list (map tp_prob (sim_teams res)) = 1))"
proof (intro conjI impI)
  show "length (sim_teams (simulateBracket b r)) = 3"
    by (simp add: simulateBracket_def Let_def length_js_sort)
  show "sum_list (map tp_prob (sim_teams (simulateBracket b r))) = 1"
    by (rule simulateBracket_sum)
next
  assume "length (path_teams p) = 4"
  then show "\<exists>res. simulateUEFAPath p r = Inr res \<and> length (sim_teams res) = 4 \<and>
      sum_list (map tp_prob (sim_teams res)) = 1"
    by (rule simulateUEFAPath_sum)
qed

theorem playoff_resolver_probabilities_sum_to_one_witness:
  "length (path_teams \<lparr>path_teams = [''IT'', ''WA'', ''BA'', ''EI'']\<rparr>) = 4 \<and>
   (\<exists>res. simulateUEFAPath \<lparr>path_teams = [''IT'', ''WA'', ''BA'', ''EI'']\<rparr>
            (Map.empty(''IT'' \<mapsto> 1900, ''WA'' \<mapsto> 1750)) = Inr res \<and>
          length (sim_teams res) = 4 \<and> sum_list (map tp_prob (sim_teams res)) = 1)"
  using playoff_resolver_probabilities_sum_to_one
    [of "\<lparr>seeded = ''NC'', unseeded = [''JM'', ''CD'']\<rparr>"
        "Map.empty(''IT'' \<mapsto> 1900, ''WA'' \<mapsto> 1750)"
        "\<lparr>path_teams = [''IT'', ''WA'', ''BA'', ''EI'']\<rparr>"]
  by simp

lemma powr_10_11: "(10::real) powr (10 / 11) \<noteq> 211 / 31"
proof
  assume eq: "(10::real) powr (10 / 11) = 211 / 31"
  have "((10::real) powr (10 / 11)) ^ 11 = 10 powr (10 / 11 * 11)"
    by (simp add: powr_power)
  also have "\<dots> = 10 ^ 10" by (simp add: powr_numeral)
  finally have "((211::real) / 31) ^ 11 = 10 ^ 10" by (simp add: eq)
  then show False by (simp add: field_simps)
qed

lemma elo_1800_1400: "eloWinProbability 1800 1400 = 10 / 11"
  by (simp add: eloWinProbability_def powr_minus)

lemma elo_1400_1800: "eloWinProbability 1400 1800 = 1 / 11"
  by (simp add: eloWinProbability_def)

lemma elo_1400_1400: "eloWinProbability 1400 1400 = 1 / 2"
  by (simp add: eloWinProbability_def)

text \<open>
  Claim C2, as stated, fails. With the seeded team S rated 1400 and the unseeded teams
  U1, U2 rated 1800 and 1400, \<open>simulateBracket\<close> gives S the win probability
  \<open>1 / (1 + 10 powr (10 / 11))\<close>, which is not
  P(U1 wins the semifinal) * knockoutWinProbability(S, U1) +
  P(U2 wins the semifinal) * knockoutWinProbability(S, U2) = 31 / 242.
\<close>

theorem simulateBracket_seeded_not_outcome_sum:
  "\<lparr>tp_code = Some ''S'', tp_elo = 1400, tp_prob = 1 / (1 + 10 powr (10 / 11))\<rparr>
     \<in> set (sim_teams (simulateBracket \<lparr>seeded = ''S'', unseeded = [''U1'', ''U2'']\<rparr>
          (Map.empty(''S'' \<mapsto> 1400, ''U1'' \<mapsto> 1800, ''U2'' \<mapsto> 1400)))) \<and>
   1 / (1 + 10 powr (10 / 11)) \<noteq>
     eloWinProbability 1800 1400 * eloWinProbability 1400 1800 +
     eloWinProbability 1400 1800 * eloWinProbability 1400 1400"
proof
  have e4: "eloWinProbability 1400 (19400 / 11) = 1 / (1 + 10 powr (10 / 11))"
    by (simp add: eloWinProbability_def)
  show "\<lparr>tp_code = Some ''S'', tp_elo = 1400, tp_prob = 1 / (1 + 10 powr (10 / 11))\<rparr>
     \<in> set (sim_teams (simulateBracket \<lparr>seeded = ''S'', unseeded = [''U1'', ''U2'']\<rparr>
          (Map.empty(''S'' \<mapsto> 1400, ''U1'' \<mapsto> 1800, ''U2'' \<mapsto> 1400))))"
    by (simp add: simulateBracket_def Let_def set_js_sort js_or_def js_index_def js_key_def
        elo_1800_1400 e4)
  have "1 / (1 + (10::real) powr (10 / 11)) \<noteq> 31 / 242"
  proof
    assume a: "1 / (1 + (10::real) powr (10 / 11)) = 31 / 242"
    have pos: "0 < 1 + (10::real) powr (10 / 11)" by (simp add: add_pos_nonneg)
    from a pos have "(10::real) powr (10 / 11) = 211 / 31" by (simp add: field_simps)
    with powr_10_11 show False by simp
  qed
  then show "1 / (1 + 10 powr (10 / 11)) \<noteq>
     eloWinProbability 1800 1400 * eloWinProbability 1400 1800 +
     eloWinProbability 1400 1800 * eloWinProbability 1400 1400"
    by (simp add: elo_1800_1400 elo_1400_1800 elo_1400_1400)
qed

text \<open>
  Claim C2, amended. \<open>simulateBracket\<close> does not sum over the two semifinal outcomes.
  It blends the two unseeded teams into one opponent whose rating is the
  probability-weighted rating of the semifinal winner,
  P(U1 wins) * rating(U1) + P(U2 wins) * rating(U2); the seeded team's win probability is
  its knockout win probability against that single rating, and the unseeded teams share
  the rest in proportion to their semifinal win probabilities. The returned \<open>teams\<close>
  array holds exactly these three entries.
\<close>

theorem simulateBracket_blended_opponent:
  "mset (sim_teams (simulateBracket b r)) =
     (let sElo = js_or (r (seeded b)) 1400;
          u1Elo = js_or (r (js_key (js_index (unseeded b) 0))) 1400;
          u2Elo = js_or (r (js_key (js_index (unseeded b) 1))) 1400;
          pU1 = eloWinProbability u1Elo u2Elo;
          pS = eloWinProbability sElo (pU1 * u1Elo + (1 - pU1) * u2Elo)
      in {#\<lparr>tp_code = Some (seeded b), tp_elo = sElo, tp_prob = pS\<rparr>,
           \<lparr>tp_code = js_index (unseeded b) 0, tp_elo = u1Elo, tp_prob = (1 - pS) * pU1\<rparr>,
           \<lparr>tp_code = js_index (unseeded b) 1, tp_elo = u2Elo,
            tp_prob = (1 - pS) * (1 - pU1)\<rparr>#})"
  by (simp add: simulateBracket_def Let_def mset_js_sort)


section \<open>Group simulators: claims\<close>







lemma mc_example_matches: "mcMatches [exA, exB, exC] = [(exA, exB), (exA, exC), (exB, exC)]"
  by (simp add: mcMatches_def indexPairs_3)

lemma mc_example_win: "simulateMatch 1500 1500 0 = Win"
  by (simp add: simulateMatch_def getMatchProbabilities_def Let_def)

lemma mc_example_tally:
  "playMatches (mcMatches [exA, exB, exC]) (\<lambda>_. 0) i zeroTally =
     \<lparr>simPoints = (\<lambda>_. 0)(''A'' := 6, ''B'' := 3),
      simWins = (\<lambda>_. 0)(''A'' := 2, ''B'' := 1),
      simDraws = (\<lambda>_. 0),
      simLosses = (\<lambda>_. 0)(''B'' := 1, ''C'' := 2)\<rparr>"
  unfolding mc_example_matches
  by (simp add: exA_def exB_def exC_def zeroTally_def mc_example_win recordResult_def bump_def
      fun_eq_iff)

lemma mc_example_standings:
  "mcStandings [exA, exB, exC]
     \<lparr>simPoints = (\<lambda>_. 0)(''A'' := 6, ''B'' := 3), simWins = w, simDraws = d, simLosses = l\<rparr> =
   [\<lparr>sd_code = ''A'', sd_points = 6\<rparr>, \<lparr>sd_code = ''B'', sd_points = 3\<rparr>,
    \<lparr>sd_code = ''C'', sd_points = 0\<rparr>]"
  unfolding mcStandings_def
  by (simp add: exA_def exB_def exC_def js_sort_def byPointsDesc_def)

lemma mc_example_iteration:
  "map (\<lambda>c. ms_positions
          (mcIteration [exA, exB, exC] (\<lambda>_. 0) i
             (\<lambda>_. \<lparr>ms_wins = 0, ms_draws = 0, ms_losses = 0, ms_points = 0,
                   ms_positions = [0, 0, 0, 0]\<rparr>) c))
     [''A'', ''B'', ''C''] =
   [[1, 0, 0, 0], [0, 1, 0, 0], [0, 0, 1, 0]]"
  unfolding mcIteration_def zeroTally_def [symmetric] mc_example_tally Let_def
    mc_example_standings
  by (simp add: accumulate_def countPosition_def exA_def exB_def exC_def)

lemma simulateGroupMonteCarlo_codes:
  "map code (simulateGroupMonteCarlo teams simulations rnd) = map code teams"
  by (simp add: simulateGroupMonteCarlo_def Let_def comp_def)

text \<open>
  Claim C9, as stated, fails: the simulator has no check of the number of teams. Given
  three teams (equal ratings, one simulation, every random draw 0) it returns three rows,
  with the teams placed first, second and third.
\<close>

theorem simulateGroupMonteCarlo_three_teams_returns:
  "map (\<lambda>r. (code r, pos1Prob r, pos2Prob r, pos3Prob r, pos4Prob r))
     (simulateGroupMonteCarlo [exA, exB, exC] 1 (\<lambda>_. 0)) =
   [(''A'', 1, 0, 0, 0), (''B'', 0, 1, 0, 0), (''C'', 0, 0, 1, 0)]"
  using mc_example_iteration [of 0]
  by (simp add: simulateGroupMonteCarlo_def Let_def exA_def exB_def exC_def)

text \<open>
  Claim C9, amended. \<open>simulateGroupMonteCarlo\<close> accepts a team list of any length and
  never signals an error: it returns one row per given team, in the order given.
\<close>

theorem simulateGroupMonteCarlo_any_length:
  "length (simulateGroupMonteCarlo teams simulations rnd) = length teams \<and>
   map code (simulateGroupMonteCarlo teams simulations rnd) = map code teams"
  by (simp add: simulateGroupMonteCarlo_def Let_def comp_def)

section \<open>Tournament simulator: claims\<close>

lemma ex12_len: "length exGroups12 = 12" by (simp add: exGroups12_def)

lemma ex12_three: "\<forall>(g, teams) \<in> set exGroups12. 3 \<le> length (remdups (map code teams))"
  by (simp add: exGroups12_def exA_def exB_def exC_def exD_def)

text \<open>
  Claim C7. In every iteration of the tournament simulator over twelve groups (each with
  at least three teams of different codes) that comes to an end, the third-placed teams
  are the entries \<open>standings[2]\<close> of the twelve simulated group standings; exactly
  eight of them, the first eight under points, then goal difference, then rating (each
  descending), are the qualifying thirds and four are eliminated, every qualifier ranking
  at least as high as every eliminated team. The iteration credits a team with reaching
  the Round of 32 once for each time it is among the first two of a group and once for
  each time it is a qualifying third, and not otherwise. The selection is a function of
  the simulated standings.
\<close>

theorem third_place_qualification:
  assumes it: "simulateIteration allTeams ko rnd (ts, k) = Inr (ts', k')"
    and len: "length allTeams = 12"
    and three: "\<forall>(g, teams) \<in> set allTeams. 3 \<le> length (remdups (map code teams))"
  shows "let runs = groupRuns (js_entries allTeams) rnd k;
             thirdPlaceTeams = map (\<lambda>(g, standings). (standings ! 2)\<lparr>st_group := Some g\<rparr>) runs;
             ranked = js_sort byStanding thirdPlaceTeams;
             qualifyingThirds = take 8 ranked;
             eliminated = drop 8 ranked
         in length runs = 12 \<and> (\<forall>(g, standings) \<in> set runs. 3 \<le> length standings) \<and>
            length qualifyingThirds = 8 \<and> length eliminated = 4 \<and>
            mset qualifyingThirds + mset eliminated = mset thirdPlaceTeams \<and>
            (\<forall>q \<in> set qualifyingThirds. \<forall>e \<in> set eliminated.
               st_points e < st_points q \<or>
               st_points q = st_points e \<and>
                 (st_gd e < st_gd q \<or> st_gd q = st_gd e \<and> st_elo e \<le> st_elo q)) \<and>
            (\<forall>c. r32Count (ts' c) =
                    r32Count (ts c) +
                    count_list (map st_code (concat (map (\<lambda>(g, standings). take 2 standings) runs))) c +
                    count_list (map st_code qualifyingThirds) c)"
proof -
  define runs where "runs = groupRuns (js_entries allTeams) rnd k"
  define thirds where "thirds = map (\<lambda>(g, standings). (standings ! 2)\<lparr>st_group := Some g\<rparr>) runs"
  have three': "\<forall>(g, teams) \<in> set (js_entries allTeams). 3 \<le> length (remdups (map code teams))"
    using three mset_js_entries [of allTeams] by (metis set_mset_mset)
  have l: "length runs = 12" by (simp add: runs_def length_js_entries len)
  have r3: "\<forall>(g, standings) \<in> set runs. 3 \<le> length standings"
    unfolding runs_def by (rule groupRuns_three [OF three'])
  have T: "fst (snd (simulateGroups (js_entries allTeams) rnd k [] [] ts)) = thirds"
    using simulateGroups_third_places [OF three', of rnd k "[]" "[]" ts]
    by (simp add: thirds_def runs_def)
  have l12: "length thirds = 12" by (simp add: thirds_def l)
  then have ls: "length (js_sort byStanding thirds) = 12" by (simp add: length_js_sort)
  have split: "mset (take 8 (js_sort byStanding thirds)) + mset (drop 8 (js_sort byStanding thirds))
      = mset thirds"
    by (metis append_take_drop_id mset_append mset_js_sort)
  have rank: "\<forall>q \<in> set (take 8 (js_sort byStanding thirds)).
      \<forall>e \<in> set (drop 8 (js_sort byStanding thirds)).
               st_points e < st_points q \<or>
               st_points q = st_points e \<and>
                 (st_gd e < st_gd q \<or> st_gd q = st_gd e \<and> st_elo e \<le> st_elo q)"
    by (rule sorted_wrt_take_drop) (rule sorted_byStanding)
  have credit: "r32Count (ts' c) =
      r32Count (ts c) +
      count_list (map st_code (concat (map (\<lambda>(g, standings). take 2 standings) runs))) c +
      count_list (map st_code (take 8 (js_sort byStanding thirds))) c" for c
    unfolding simulateIteration_r32Count [OF it] T qualifyThirds_def
    by (simp add: r32Count_markThirds simulateGroups_top_two runs_def)
  show ?thesis
    unfolding Let_def runs_def [symmetric] thirds_def [symmetric]
    using l r3 ls split rank credit by simp
qed

theorem third_place_qualification_witness:
  "\<exists>ts' k'.
     simulateIteration exGroups12 exFinalOnly (\<lambda>_. 0) (initialStats, 0) = Inr (ts', k') \<and>
     length exGroups12 = 12 \<and>
     list_all (\<lambda>gt. 3 \<le> length (remdups (map code (snd gt)))) exGroups12 \<and>
     length (take 8 (js_sort byStanding
       (map (\<lambda>(g, standings). (standings ! 2)\<lparr>st_group := Some g\<rparr>)
          (groupRuns (js_entries exGroups12) (\<lambda>_. 0) 0)))) = 8"
proof -
  obtain S T ts1 k1 where
    G: "simulateGroups (js_entries exGroups12) (\<lambda>_. 0) 0 [] [] initialStats = (S, T, ts1, k1)"
    by (cases "simulateGroups (js_entries exGroups12) (\<lambda>_. 0) 0 [] [] initialStats") auto
  have it: "simulateIteration exGroups12 exFinalOnly (\<lambda>_. 0) (initialStats, 0) =
      Inr (markThirds ts1 (qualifyThirds T), k1)"
    by (simp add: simulateIteration_def G Let_def exFinalOnly_def simulateFinal_def winnerOf_def
        js_index_def)
  from third_place_qualification [OF it ex12_len ex12_three] it ex12_len ex12_three
  show ?thesis
    by (simp add: Let_def list_all_iff case_prod_beta)
qed

text \<open>
  Claim C8 holds for the second slot of a match only. In the first slot a third-place pool
  is never resolved: with a qualifier of group A available, the match \<open>3A\<close> against
  \<open>1B\<close> is skipped (no winner, no credit), while \<open>1B\<close> against \<open>3A\<close> is played and
  consumes the qualifier.
\<close>

theorem r32_pool_in_first_slot_is_skipped:
  "r32Match exStandings (\<lambda>_. 0) (SlotMatch 1 ''3A'' ''1B'')
      (exThirds, Map.empty, initialStats, 0) =
     Inr (exThirds, Map.empty, initialStats, 0) \<and>
   r32Match exStandings (\<lambda>_. 0) (SlotMatch 1 ''1B'' ''3A'')
      (exThirds, Map.empty, initialStats, 0) =
     Inr ([], [1 \<mapsto> exStanding ''B1''], creditR16 initialStats ''B1'', 1)"
  by (simp add: resolveTeam1_def resolveTeam2_def parseSlot_def js_index_def exStandings_def
      lookupStanding_def parseInt1_def is_digit_def digit_value_def js_key_def exThirds_def
      inPool_def exStanding_def simulateKnockoutMatch_def)

section \<open>Interactive bracket: claims\<close>

text \<open>
  Claim C3, as stated, fails when a match downstream of the clicked match is locked
  before. In the example bracket (matches 3 and 4 feed match 18) team C1 is locked at
  matches 4 and 18, so C1 wins match 18 with probability 1. Clicking A1 at match 3 locks
  it there and clears the lock at match 18; clicking A1 at match 3 again unlocks match 3,
  but the lock at match 18 is not restored: C1 now wins match 18 with probability 1/2.
\<close>

theorem relock_does_not_restore_downstream_lock:
  "handleBracketClick (Suc (Suc 0)) exSos exLocked0 3 (Some (exTeam ''A1'' (3 / 5))) =
     Inr exLocked1 \<and>
   handleBracketClick (Suc (Suc 0)) exSos exLocked1 3 (Some (exTeam ''A1'' (3 / 5))) =
     Inr exLocked2 \<and>
   getCumulativeProbWin (Suc (Suc (Suc (Suc (Suc 0))))) exSos exLocked0 exKnockout ''C1'' 18 =
     Inr 1 \<and>
   getCumulativeProbWin (Suc (Suc (Suc (Suc (Suc 0))))) exSos exLocked2 exKnockout ''C1'' 18 =
     Inr (1 / 2)"
  using ex_click_1 ex_click_2 ex_cum_before ex_cum_after by simp

text \<open>
  Claim C3, amended. Let M be a Round-of-32 match (ids up to 16, later rounds above 16)
  that is not locked, with no lock on any match downstream of M (clearing them changes
  nothing), and let T be a team whose upstream path to M is M alone. Then clicking T at
  M locks T there, and clicking T at M again removes that lock and gives back exactly the
  override state from before the first click; so every probability and every displayed
  occupant, being computed from that state, is identical to never having locked.
\<close>

theorem lock_then_relock_restores:
  assumes ko: "ko = knockout (worldCupGroups sd)"
    and M: "M \<le> 16"
    and r32: "\<forall>m \<in> set (r32 ko). match m \<le> 16"
    and later: "\<forall>m \<in> set (r16 ko @ qf ko @ sf ko @ final ko). 16 < match m"
    and unlocked: "fmlookup ov M = None"
    and nodown: "clearDownstreamOverrides d ko M ov = Inr ov"
    and path: "findUpstreamMatches d sd ov ko (bt_code t) M = Inr [M]"
    and lock: "lock = \<lparr>bt_code = bt_code t, bt_name = bt_name t, bt_elo = bt_elo t,
                       bt_baseProb = None, bt_isThirdPlace = False, bt_winProb = None\<rparr>"
  shows "handleBracketClick d sd ov M (Some t) = Inr (fmupd M lock ov) \<and>
         handleBracketClick d sd (fmupd M lock ov) M (Some t) = Inr ov \<and>
         (\<forall>ov2. handleBracketClick d sd (fmupd M lock ov) M (Some t) = Inr ov2 \<longrightarrow>
            (\<forall>d' c k. getCumulativeProbWin d' sd ov2 ko c k = getCumulativeProbWin d' sd ov ko c k \<and>
                      getProbOfReaching d' sd ov2 ko c k = getProbOfReaching d' sd ov ko c k) \<and>
            (\<forall>d' m. getMatchTeams d' sd ov2 ko m = getMatchTeams d' sd ov ko m))"
proof -
  have notlater: "M \<notin> match ` set (r16 ko @ qf ko @ sf ko @ final ko)"
    using later M by fastforce
  have keep: "clearDownstreamOverrides d ko M (fmupd M lock ov) = Inr (fmupd M lock ov)"
    using nodown notlater by (rule clearDownstream_keeps)
  have first: "handleBracketClick d sd ov M (Some t) = Inr (fmupd M lock ov)"
    by (simp add: handleBracketClick_def Let_def ko [symmetric] path unlocked keep lock [symmetric])
  have code: "bt_code lock = bt_code t" by (simp add: lock)
  have path2: "findUpstreamMatches d sd (fmupd M lock ov) ko (bt_code t) M = Inr [M]"
    using path r32 later M code by (rule upstream_relock)
  have drop: "fmdrop M (fmupd M lock ov) = ov"
    using unlocked by (intro fmap_ext) auto
  have second: "handleBracketClick d sd (fmupd M lock ov) M (Some t) = Inr ov"
    by (simp add: handleBracketClick_def Let_def ko [symmetric] path2 code drop nodown)
  show ?thesis using first second by simp
qed

theorem lock_then_relock_restores_witness:
  "handleBracketClick (Suc (Suc 0)) exSos fmempty 3 (Some (exTeam ''A1'' (3 / 5))) =
     Inr (fmupd 3 (exLock ''A1'') fmempty) \<and>
   handleBracketClick (Suc (Suc 0)) exSos (fmupd 3 (exLock ''A1'') fmempty) 3
     (Some (exTeam ''A1'' (3 / 5))) = Inr fmempty"
  using lock_then_relock_restores [of exKnockout exSos 3 fmempty "Suc (Suc 0)" "exTeam ''A1'' (3 / 5)"
      "exLock ''A1''"]
    ex_path_empty [of "Suc 0"] ex_clear_3 [of 0 fmempty]
  by (simp add: ex_ko ex_r32 ex_later exTeam_def exLock_def del: clearDownstreamOverrides.simps)

text \<open>
  Claim C4, as stated, fails: \<open>handleBracketClick\<close> has no rejection. In the example
  bracket with no locks, team C1 is not a possible occupant of match 3 (those are A1 and
  B2); clicking C1 at match 3 nevertheless locks C1 at match 4.
\<close>

theorem click_mutates_for_non_occupant:
  "getPossibleTeamsFromMatch (Suc (Suc 0)) exSos fmempty exKnockout 3 =
     Inr [exTeam ''A1'' (3 / 5), exTeam ''B2'' (3 / 5)] \<and>
   handleBracketClick (Suc (Suc 0)) exSos fmempty 3 (Some (exTeam ''C1'' (3 / 5))) =
     Inr (fmupd 4 (exLock ''C1'') fmempty)"
proof
  show "getPossibleTeamsFromMatch (Suc (Suc 0)) exSos fmempty exKnockout 3 =
     Inr [exTeam ''A1'' (3 / 5), exTeam ''B2'' (3 / 5)]"
    using ex_possible_3 [of fmempty "Suc 0"] by simp
  have c: "\<And>p. bt_code (exTeam ''C1'' p) = ''C1''" by (simp add: exTeam_def)
  show "handleBracketClick (Suc (Suc 0)) exSos fmempty 3 (Some (exTeam ''C1'' (3 / 5))) =
     Inr (fmupd 4 (exLock ''C1'') fmempty)"
    unfolding handleBracketClick_def
    by (simp add: Let_def ex_ko c ex_path_C1 ex_clear_3 del: clearDownstreamOverrides.simps)
       (simp add: exTeam_def exLock_def fmdrop_fmupd)
qed

text \<open>
  Claim C4, amended. For a team that is a possible occupant of no match of the bracket
  under the active override state, \<open>handleBracketClick\<close> installs and removes no lock;
  it only clears the overrides of the matches downstream of the clicked match, as it does
  on every click. Every other override is left as it was, and nothing is rejected.
\<close>

theorem click_on_unreachable_team:
  assumes ko: "ko = knockout (worldCupGroups sd)"
    and nowhere: "\<forall>m \<in> set (allMatches ko).
        \<exists>ts. getPossibleTeamsFromMatch d sd ov ko (match m) = Inr ts \<and> \<not> hasCode (bt_code t) ts"
  shows "handleBracketClick d sd ov matchId (Some t) = clearDownstreamOverrides d ko matchId ov \<and>
         (\<forall>ov'. handleBracketClick d sd ov matchId (Some t) = Inr ov' \<longrightarrow>
            (\<forall>k. k \<notin> match ` set (r16 ko @ qf ko @ sf ko @ final ko) \<longrightarrow>
                 fmlookup ov' k = fmlookup ov k) \<and>
            (\<forall>k. fmlookup ov' k = fmlookup ov k \<or> fmlookup ov' k = None))"
proof -
  have path: "findUpstreamMatches d sd ov ko (bt_code t) matchId = Inr []"
    using nowhere by (rule findUpstreamMatches_none)
  have eq: "handleBracketClick d sd ov matchId (Some t) = clearDownstreamOverrides d ko matchId ov"
    by (simp add: handleBracketClick_def Let_def ko [symmetric] path)
  show ?thesis
    using eq clearDownstream_result [of d ko matchId ov] by simp
qed

theorem click_on_unreachable_team_witness:
  "handleBracketClick (Suc (Suc 0)) exSos fmempty 3 (Some (exTeam ''ZZ'' (1 / 2))) =
     clearDownstreamOverrides (Suc (Suc 0)) exKnockout 3 fmempty"
  using click_on_unreachable_team [of exKnockout exSos "Suc (Suc 0)" fmempty "exTeam ''ZZ'' (1 / 2)" 3]
    ex_possible_3 [of fmempty "Suc 0"] ex_possible_4 [of fmempty "Suc 0"] ex_possible_18 [of fmempty 0]
  by (simp add: ex_ko ex_all hasCode_def exTeam_def
       del: getPossibleTeamsFromMatch.simps clearDownstreamOverrides.simps)

section \<open>Round probabilities: claims\<close>

text \<open>
  Claim C10, as stated, fails. In the two-group example every group-position slot is in
  exactly one Round-of-32 match, but the two Round-of-16 matches 17 and 18 both read the
  winners of the matches 3 and 4. Team \<open>A1\<close> wins both and is credited with a
  quarter-final twice in the one iteration: its \<open>qfProb\<close> is 2, above its
  \<open>r16Prob\<close> of 1 and outside the unit interval.
\<close>

theorem chain_fails_for_shared_predecessors:
  "distinct (positionSlots (r32 (knockout (exGroupData [PrevMatch 17 [3, 4], PrevMatch 18 [3, 4]])))) \<and>
   map_sum id (map (map_prod id (map rowChain)))
     (simulateTournament (exGroupData [PrevMatch 17 [3, 4], PrevMatch 18 [3, 4]])
        (\<lambda>_. None) (\<lambda>_. None) (\<lambda>_. None) 1 (\<lambda>_. 0)) =
   Inr [(''A'', [(''A1'', [1, 1, 2, 0, 0, 0]), (''A2'', [1, 0, 0, 0, 0, 0])]),
        (''B'', [(''B1'', [1, 1, 0, 0, 0, 0]), (''B2'', [1, 0, 0, 0, 0, 0])])]"
  using ex_results_two by (simp add: exGroupData_def ex_slots)

text \<open>
  Claim C10, amended. Provided that at least one iteration is simulated, that no team code
  is listed twice in the groups, that every group-position slot is in at most one
  Round-of-32 match, and that no match id is read twice by the matches of the Round of 16,
  twice by the quarter-finals or twice by the semi-finals, every row of a result of
  \<open>simulateTournament\<close> satisfies, for every sequence of random draws,
  \<open>0 \<le> winProb \<le> finalProb \<le> sfProb \<le> qfProb \<le> r16Prob \<le> r32Prob \<le> 1\<close>.
\<close>

theorem tournament_probability_chain:
  assumes res: "simulateTournament gd ratings expectedElos teamNames simulations rnd = Inr results"
    and sims: "0 < simulations"
    and codes: "distinct (concat (map snd (groups gd)))"
    and slots: "distinct (positionSlots (r32 (knockout gd)))"
    and f16: "distinct (feeds (r16 (knockout gd)))"
    and fqf: "distinct (feeds (qf (knockout gd)))"
    and fsf: "distinct (feeds (sf (knockout gd)))"
  shows "\<forall>(groupName, rows) \<in> set results. \<forall>row \<in> set rows.
           0 \<le> winProb row \<and> winProb row \<le> finalProb row \<and> finalProb row \<le> sfProb row \<and>
           sfProb row \<le> qfProb row \<and> qfProb row \<le> r16Prob row \<and> r16Prob row \<le> r32Prob row \<and>
           r32Prob row \<le> 1"
proof -
  define allTeams where "allTeams = buildAllTeams (groups gd) ratings expectedElos teamNames"
  from res obtain ts k where
    loop: "simulateLoop simulations allTeams (knockout gd) rnd (initialStats, 0) = Inr (ts, k)"
    and results: "results = fold (\<lambda>(groupName, teams) results.
                          js_put results groupName
                            (js_sort byR32Desc (map (resultRow ts simulations) teams)))
                    (js_entries allTeams) []"
    by (auto simp: simulateTournament_def Let_def allTeams_def split: sum.splits)
  have dc: "distinct (concat (map (\<lambda>gt. map code (snd gt)) (js_entries allTeams)))"
    unfolding allTeams_def using codes by (rule buildAllTeams_codes)
  have "\<forall>d. chainOK 0 (initialStats d)" by (simp add: initial_chain)
  from simulateLoop_chain [OF loop slots f16 fqf fsf dc this]
  have chain: "\<forall>d. chainOK simulations (ts d)" by simp
  show ?thesis
  proof (intro ballI, clarify)
    fix g rows row
    assume "(g, rows) \<in> set results" and row: "row \<in> set rows"
    then obtain teams where "rows = js_sort byR32Desc (map (resultRow ts simulations) teams)"
      unfolding results
      by (auto dest!: fold_js_put_values [where F = "\<lambda>teams. js_sort byR32Desc (map (resultRow ts simulations) teams)"])
    with row obtain t where t: "row = resultRow ts simulations t"
      by (auto simp: set_js_sort)
    from chain have "chainOK simulations (ts (code t))" ..
    from resultRow_chain [where ts = ts and t = t and n = simulations, OF this sims]
    show "0 \<le> winProb row \<and> winProb row \<le> finalProb row \<and> finalProb row \<le> sfProb row \<and>
           sfProb row \<le> qfProb row \<and> qfProb row \<le> r16Prob row \<and> r16Prob row \<le> r32Prob row \<and>
           r32Prob row \<le> 1"
      unfolding t .
  qed
qed

theorem tournament_probability_chain_witness:
  "\<exists>results.
     simulateTournament (exGroupData [PrevMatch 17 [3, 4]]) (\<lambda>_. None) (\<lambda>_. None) (\<lambda>_. None)
       1 (\<lambda>_. 0) = Inr results \<and>
     list_all (\<lambda>gr. list_all (\<lambda>row.
         0 \<le> winProb row \<and> winProb row \<le> finalProb row \<and> finalProb row \<le> sfProb row \<and>
         sfProb row \<le> qfProb row \<and> qfProb row \<le> r16Prob row \<and>
         r16Prob row \<le> r32Prob row \<and> r32Prob row \<le> 1) (snd gr)) results"
proof -
  from ex_results_one obtain results where
    res: "simulateTournament (exGroupData [PrevMatch 17 [3, 4]]) (\<lambda>_. None) (\<lambda>_. None)
       (\<lambda>_. None) 1 (\<lambda>_. 0) = Inr results"
    by (cases "simulateTournament (exGroupData [PrevMatch 17 [3, 4]]) (\<lambda>_. None) (\<lambda>_. None)
       (\<lambda>_. None) 1 (\<lambda>_. 0)") auto
  have "\<forall>(groupName, rows) \<in> set results. \<forall>row \<in> set rows.
         0 \<le> winProb row \<and> winProb row \<le> finalProb row \<and> finalProb row \<le> sfProb row \<and>
         sfProb row \<le> qfProb row \<and> qfProb row \<le> r16Prob row \<and>
         r16Prob row \<le> r32Prob row \<and> r32Prob row \<le> 1"
    by (rule tournament_probability_chain [OF res])
       (simp_all add: exGroupData_def ex_slots feeds_def)
  with res show ?thesis
    by (auto simp: list_all_iff)
qed
end
